theory Spec2Isabelle
  imports Complex_Main "HOL-Library.Log_Nat"
begin

section \<open>Frame alignment of logged events with video segments (make\_csv.py)\<close>

text \<open>
  The development embeds the alignment code of \<^verbatim>\<open>make_csv.py\<close>: the two functions
  that add the end columns to the data frames, the lookup of the video an event starts
  in, and the loop of \<^verbatim>\<open>run_thru_events\<close> with its inner overflow walk.

  Conventions of the embedding.
  \<^item> A pandas data frame is the list of its rows, in frame order; a row is a record.
    The frames are built from lists of dictionaries, so a row's index label is its
    position.
  \<^item> Timestamps are epoch seconds (\<open>int\<close>). The text formats of the log lines and of the
    file names, and their parsing with \<^verbatim>\<open>strptime\<close>, are outside the embedding: a
    row carries the parsed value. A parsed date and time without a zone (a naive
    \<^verbatim>\<open>datetime\<close>) is the number of seconds of the wall clock since 1970-01-01 00:00:00;
    \<^verbatim>\<open>.timestamp()\<close> turns it into epoch seconds by the rules of the local time zone,
    which is a parameter \<open>tz\<close> of the functions that call it.
  \<^item> Python's \<^verbatim>\<open>/\<close> on the frame count is numpy's division of 64-bit floats: both
    operands and the exact quotient are rounded to 53 significant bits (\<open>true_divide\<close>).
    The other values computed from the \<^verbatim>\<open>length\<close> column (differences, products and
    comparisons in the overflow walk) are modelled as exact rationals (\<open>rat\<close>).
  \<^item> A raised exception is the left injection of a sum; nothing in the source catches
    one, so an exception ends the run without an output table.
\<close>

subsection \<open>Data\<close>

datatype error = KeyError | IndexError | ValueError | OverflowError | TypeError

text \<open>A row of \<^verbatim>\<open>file_epoch_map_df\<close> as \<^verbatim>\<open>map_file_names_to_epoch\<close> builds it.\<close>

record file_epoch =
  filename :: string
  epoch_ts :: int

text \<open>The same row after \<^verbatim>\<open>_add_video_end_info\<close> has added two columns.\<close>

record video_info = file_epoch +
  length_col :: rat
  end_epoch_ts :: int

text \<open>
  A row of \<^verbatim>\<open>counts_df\<close>. \<open>cnt_datetime\<close> is the naive date and time that lines
  106--108 and 131--133 parse out of the row's file name.
\<close>

record count_row =
  cnt_filename :: string
  cnt_datetime :: int
  frames :: int

text \<open>A row of \<^verbatim>\<open>events_df\<close>, before and after \<^verbatim>\<open>_add_event_end_info\<close>.\<close>

record event =
  event_type :: string
  ts :: int

record event_info = event +
  end_ts :: int

text \<open>An emitted label (the dictionary with keys filename, class, start frame, end frame).\<close>

record label =
  lbl_filename :: string
  lbl_class :: string
  start_frame :: rat
  end_frame :: rat

subsection \<open>Library operations used by the source\<close>

text \<open>Python's \<^verbatim>\<open>int\<close> on a float truncates towards zero.\<close>

definition py_int :: "rat \<Rightarrow> int" where
  "py_int q = (if 0 \<le> q then \<lfloor>q\<rfloor> else \<lceil>q\<rceil>)"

text \<open>
  \<^verbatim>\<open>np.argmin\<close>: the position of the first occurrence of the least value; on an
  empty sequence it raises \<^verbatim>\<open>ValueError\<close>.
\<close>

fun argmin_scan :: "int list \<Rightarrow> nat \<Rightarrow> nat \<Rightarrow> int \<Rightarrow> nat" where
  "argmin_scan [] i best v = best"
| "argmin_scan (x # xs) i best v =
     (if x < v then argmin_scan xs (Suc i) i x else argmin_scan xs (Suc i) best v)"

definition np_argmin :: "int list \<Rightarrow> error + nat" where
  "np_argmin xs = (case xs of [] \<Rightarrow> Inl ValueError | x # rest \<Rightarrow> Inr (argmin_scan rest 1 0 x))"

text \<open>
  The division of line 129 and of lines 109 and 134: numpy converts the 64-bit integer and
  the Python integer to 64-bit floats and divides them. A finite float is a rational
  number; \<open>float64\<close> rounds a rational to the nearest one with 53 significant bits, ties
  to the even significand. The bounds of the exponent are not modelled: quotients of frame
  counts by frame rates do not reach them.
  \<open>binary_exponent x\<close> is the \<open>e\<close> with \<open>2 ^ e \<le> \<bar>x\<bar> < 2 ^ (e + 1)\<close>.
\<close>

definition pow2 :: "int \<Rightarrow> rat" where
  "pow2 e = (if 0 \<le> e then 2 ^ nat e else 1 / 2 ^ nat (- e))"

definition round_half_even :: "rat \<Rightarrow> int" where
  "round_half_even x =
     (let f = \<lfloor>x\<rfloor>; d = x - of_int f
      in if d < 1 / 2 then f else if 1 / 2 < d then f + 1 else if even f then f else f + 1)"

definition binary_exponent :: "rat \<Rightarrow> int" where
  "binary_exponent x =
     (let (p, q) = quotient_of \<bar>x\<bar>; e = bitlen p - bitlen q
      in if pow2 e \<le> \<bar>x\<bar> then e else e - 1)"

definition float64 :: "rat \<Rightarrow> rat" where
  "float64 x =
     (if x = 0 then 0
      else let ulp = pow2 (binary_exponent x - 52)
           in of_int (round_half_even (x / ulp)) * ulp)"

definition true_divide :: "int \<Rightarrow> int \<Rightarrow> rat" where
  "true_divide a b = float64 (float64 (of_int a) / float64 (of_int b))"

text \<open>
  The local time zone: the epoch seconds \<^verbatim>\<open>.timestamp()\<close> returns for a naive date and
  time. \<open>utc\<close> is the zone without offset and without clock changes.
\<close>

type_synonym timezone = "int \<Rightarrow> int"

definition utc :: timezone where
  "utc d = d"

text \<open>
  A naive \<^verbatim>\<open>datetime\<close> plus \<^verbatim>\<open>timedelta(seconds=n)\<close>: wall clock arithmetic, which
  raises \<^verbatim>\<open>OverflowError\<close> when the result leaves the years 1 to 9999.
\<close>

definition datetime_min :: int where
  "datetime_min = - 62135596800"

definition datetime_max :: int where
  "datetime_max = 253402300799"

definition add_seconds :: "int \<Rightarrow> int \<Rightarrow> error + int" where
  "add_seconds d n =
     (if datetime_min \<le> d + n \<and> d + n \<le> datetime_max then Inr (d + n) else Inl OverflowError)"

subsection \<open>The end columns\<close>

text \<open>
  Lines 128--136: \<^verbatim>\<open>length\<close> is the next row's \<^verbatim>\<open>epoch_ts\<close> minus the row's own and
  \<^verbatim>\<open>end_epoch_ts\<close> is the next row's \<^verbatim>\<open>epoch_ts\<close> (\<^verbatim>\<open>shift(-1)\<close>); the last row gets
  the two values computed from the last row of \<^verbatim>\<open>counts_df\<close>.
\<close>

fun shift_fill_video :: "file_epoch list \<Rightarrow> rat \<Rightarrow> int \<Rightarrow> video_info list" where
  "shift_fill_video [] q e = []"
| "shift_fill_video [r] q e = [file_epoch.extend r \<lparr>length_col = q, end_epoch_ts = e\<rparr>]"
| "shift_fill_video (r # r' # rs) q e =
     file_epoch.extend r
       \<lparr>length_col = of_int (epoch_ts r' - epoch_ts r), end_epoch_ts = epoch_ts r'\<rparr>
     # shift_fill_video (r' # rs) q e"

text \<open>
  \<^verbatim>\<open>_add_video_end_info\<close>. An empty frame built from an empty list has no column
  \<^verbatim>\<open>epoch_ts\<close> (line 128, \<^verbatim>\<open>KeyError\<close>); \<^verbatim>\<open>iloc[-1]\<close> on an empty \<^verbatim>\<open>counts_df\<close>
  raises \<^verbatim>\<open>IndexError\<close> (line 129); with \<^verbatim>\<open>fps = 0\<close> the numpy quotient is infinite
  or not a number and \<^verbatim>\<open>int\<close> of it raises (line 134). The last row's length is the
  float quotient (line 129); its end is the timestamp, in the local zone, of the naive
  date and time of the last counted file plus the truncated quotient in seconds (lines
  131--136).
\<close>

definition add_video_end_info ::
  "timezone \<Rightarrow> file_epoch list \<Rightarrow> count_row list \<Rightarrow> int \<Rightarrow> error + video_info list" where
  "add_video_end_info tz file_epoch_map_df counts_df fps =
     (if file_epoch_map_df = [] then Inl KeyError
      else if counts_df = [] then Inl IndexError
      else if fps = 0 then
        Inl (if frames (last counts_df) = 0 then ValueError else OverflowError)
      else
        let q = true_divide (frames (last counts_df)) fps
        in case add_seconds (cnt_datetime (last counts_df)) (py_int q) of
             Inl e \<Rightarrow> Inl e
           | Inr new_last_video_datetime \<Rightarrow>
               Inr (shift_fill_video file_epoch_map_df q (tz new_last_video_datetime)))"

text \<open>Lines 105--111: \<^verbatim>\<open>end_ts\<close> is the next event's \<^verbatim>\<open>ts\<close>, the last row gets \<open>e\<close>.\<close>

fun shift_fill_event :: "event list \<Rightarrow> int \<Rightarrow> event_info list" where
  "shift_fill_event [] e = []"
| "shift_fill_event [r] e = [event.extend r \<lparr>end_ts = e\<rparr>]"
| "shift_fill_event (r # r' # rs) e =
     event.extend r \<lparr>end_ts = ts r'\<rparr> # shift_fill_event (r' # rs) e"

text \<open>
  \<^verbatim>\<open>_add_event_end_info\<close>. The last event's end is written as the formatted naive date
  and time of the end of the last counted file (lines 106--111); line 168 parses it back
  and takes its timestamp in the local zone, which is the value the row carries here.
\<close>

definition add_event_end_info ::
  "timezone \<Rightarrow> event list \<Rightarrow> count_row list \<Rightarrow> int \<Rightarrow> error + event_info list" where
  "add_event_end_info tz events_df counts_df fps =
     (if events_df = [] then Inl KeyError
      else if counts_df = [] then Inl IndexError
      else if fps = 0 then
        Inl (if frames (last counts_df) = 0 then ValueError else OverflowError)
      else
        case add_seconds (cnt_datetime (last counts_df))
               (py_int (true_divide (frames (last counts_df)) fps)) of
          Inl e \<Rightarrow> Inl e
        | Inr new_last_video_datetime \<Rightarrow>
            Inr (shift_fill_event events_df (tz new_last_video_datetime)))"

subsection \<open>The video an event starts in\<close>

text \<open>
  \<^verbatim>\<open>_find_latest_video\<close> (line 65): among the rows with \<^verbatim>\<open>epoch_ts\<close> below the
  event's timestamp, the file name at the position \<^verbatim>\<open>np.argmin\<close> returns for the
  absolute differences.
\<close>

definition find_latest_video :: "int \<Rightarrow> video_info list \<Rightarrow> error + string" where
  "find_latest_video epoch_timestamp file_epoch_map_df =
     (let earlier = filter (\<lambda>r. epoch_ts r < epoch_timestamp) file_epoch_map_df
      in case np_argmin (map (\<lambda>r. \<bar>epoch_ts r - epoch_timestamp\<bar>) earlier) of
           Inl e \<Rightarrow> Inl e
         | Inr k \<Rightarrow> Inr (filename (earlier ! k)))"

subsection \<open>The overflow walk\<close>

text \<open>
  The \<^verbatim>\<open>while\<close> loop of lines 177--194, with the loop variables
  \<^verbatim>\<open>leftover_seconds\<close> and \<^verbatim>\<open>video_index\<close> and the list the labels are appended
  to. \<^verbatim>\<open>iloc[video_index]\<close> past the last row raises \<^verbatim>\<open>IndexError\<close>.
\<close>

function overflow_walk ::
  "video_info list \<Rightarrow> string \<Rightarrow> int \<Rightarrow> rat \<Rightarrow> nat \<Rightarrow> label list \<Rightarrow> error + label list" where
  "overflow_walk df cls fps leftover_seconds video_index labels_list =
     (if leftover_seconds > 0 then
        (if video_index < length df then
           (let overflowing_label =
                  \<lparr>lbl_filename = filename (df ! video_index), lbl_class = cls,
                   start_frame = min 4 (leftover_seconds * of_int fps), end_frame = 0\<rparr>
            in if leftover_seconds < length_col (df ! video_index) then
                 overflow_walk df cls fps 0 (video_index + 1)
                   (labels_list @ [overflowing_label\<lparr>end_frame := leftover_seconds * of_int fps\<rparr>])
               else
                 overflow_walk df cls fps (leftover_seconds - length_col (df ! video_index))
                   (video_index + 1)
                   (labels_list @ [overflowing_label\<lparr>end_frame := length_col (df ! video_index)\<rparr>]))
         else Inl IndexError)
      else Inr labels_list)"
  by pat_completeness auto
termination
  by (relation "measure (\<lambda>(df, cls, fps, leftover, video_index, labels). length df - video_index)")
     auto

subsection \<open>One event, and the loop over the events\<close>

text \<open>
  Lines 162--163: the file name found, then the rows of the frame with that file name
  (\<^verbatim>\<open>starting_video_info\<close>). Lines 164--166 take \<^verbatim>\<open>int\<close> of a column of the
  selection, which raises \<^verbatim>\<open>TypeError\<close> unless it has exactly one row. The result is
  the index label of that row, which is its position.
\<close>

definition starting_video_index :: "int \<Rightarrow> video_info list \<Rightarrow> error + nat" where
  "starting_video_index event_start file_epoch_map_df =
     (case find_latest_video event_start file_epoch_map_df of
        Inl e \<Rightarrow> Inl e
      | Inr starting_video \<Rightarrow>
          (case filter (\<lambda>i. filename (file_epoch_map_df ! i) = starting_video)
                  [0..<length file_epoch_map_df] of
             [idx] \<Rightarrow> Inr idx
           | _ \<Rightarrow> Inl TypeError))"

text \<open>
  The body of the \<^verbatim>\<open>for\<close> loop (lines 156--198) for one event row. The label's file
  name is the one found, which is the file name of the selected row.
\<close>

definition label_event ::
  "video_info list \<Rightarrow> int \<Rightarrow> event_info \<Rightarrow> label list \<Rightarrow> error + label list" where
  "label_event file_epoch_map_df fps row labels_list =
     (case starting_video_index (ts row) file_epoch_map_df of
        Inl e \<Rightarrow> Inl e
      | Inr idx \<Rightarrow>
          (let starting_video_info = file_epoch_map_df ! idx;
               starting_video_ts = epoch_ts starting_video_info;
               starting_video_length = py_int (length_col starting_video_info);
               starting_video_end_ts = end_epoch_ts starting_video_info;
               event_ts = ts row;
               event_end_ts = end_ts row;
               label = \<lparr>lbl_filename = filename starting_video_info,
                        lbl_class = event_type row,
                        start_frame = of_int ((event_ts - starting_video_ts) * fps),
                        end_frame = 0\<rparr>
           in if event_end_ts > starting_video_end_ts then
                (case overflow_walk file_epoch_map_df (event_type row) fps
                        (of_int (event_end_ts - starting_video_end_ts)) (idx + 1) labels_list of
                   Inl e \<Rightarrow> Inl e
                 | Inr labels_list' \<Rightarrow>
                     Inr (labels_list'
                            @ [label\<lparr>end_frame := of_int ((starting_video_length - 1) * fps)\<rparr>]))
              else
                Inr (labels_list
                       @ [label\<lparr>end_frame := of_int ((event_end_ts - starting_video_ts) * fps)\<rparr>])))"

fun iter_events ::
  "video_info list \<Rightarrow> int \<Rightarrow> event_info list \<Rightarrow> label list \<Rightarrow> error + label list" where
  "iter_events df fps [] labels_list = Inr labels_list"
| "iter_events df fps (row # rows) labels_list =
     (case label_event df fps row labels_list of
        Inl e \<Rightarrow> Inl e
      | Inr labels_list' \<Rightarrow> iter_events df fps rows labels_list')"

text \<open>
  \<^verbatim>\<open>run_thru_events\<close> up to the list \<^verbatim>\<open>labels_list\<close> it has collected when the loop
  ends. The source returns the frame of these rows sorted by file name, a permutation of
  the list.
\<close>

definition run_thru_events ::
  "timezone \<Rightarrow> event list \<Rightarrow> count_row list \<Rightarrow> file_epoch list \<Rightarrow> int
     \<Rightarrow> error + label list" where
  "run_thru_events tz events_df counts_df file_epoch_map_df fps =
     (case add_video_end_info tz file_epoch_map_df counts_df fps of
        Inl e \<Rightarrow> Inl e
      | Inr df \<Rightarrow>
          (case add_event_end_info tz events_df counts_df fps of
             Inl e \<Rightarrow> Inl e
           | Inr evs \<Rightarrow> iter_events df fps evs []))"

subsection \<open>The overflow splitting as the specification words it\<close>

text \<open>
  The specification describes the walk over the segments that follow the owning one,
  in timeline order: the row of the current segment starts at \<open>min 4 (leftover * rate)\<close>;
  if the leftover is below the segment's duration the row ends at \<open>leftover * rate\<close> and
  the walk stops; otherwise the row ends at the duration, the leftover is decreased by the
  duration and the walk advances; running past the last segment with a positive leftover
  is the failure it calls SegmentExhausted (\<open>None\<close> here). This definition follows
  those words, by recursion on the list of the following segments.
\<close>

fun spec_overflow_rows :: "video_info list \<Rightarrow> string \<Rightarrow> int \<Rightarrow> rat \<Rightarrow> label list option" where
  "spec_overflow_rows [] cls frame_rate leftover =
     (if leftover > 0 then None else Some [])"
| "spec_overflow_rows (seg # segs) cls frame_rate leftover =
     (if leftover > 0 then
        (if leftover < length_col seg then
           Some [\<lparr>lbl_filename = filename seg, lbl_class = cls,
                  start_frame = min 4 (leftover * of_int frame_rate),
                  end_frame = leftover * of_int frame_rate\<rparr>]
         else
           map_option
             ((#) \<lparr>lbl_filename = filename seg, lbl_class = cls,
                    start_frame = min 4 (leftover * of_int frame_rate),
                    end_frame = length_col seg\<rparr>)
             (spec_overflow_rows segs cls frame_rate (leftover - length_col seg)))
      else Some [])"

subsection \<open>The frame condition of the specification\<close>

text \<open>
  The specification's condition on a label row of a segment: the frames are in order and
  lie between 0 and the segment's duration in seconds times the frame rate.
\<close>

definition frames_in_segment :: "video_info \<Rightarrow> int \<Rightarrow> label \<Rightarrow> bool" where
  "frames_in_segment seg frame_rate r \<longleftrightarrow>
     0 \<le> start_frame r \<and> start_frame r \<le> end_frame r
     \<and> end_frame r \<le> length_col seg * of_int frame_rate"

subsection \<open>The boundary scenario of the specification\<close>

text \<open>
  Three video files starting at the epoch seconds 0, 10 and 25, and a frame count table
  whose last row gives the last file 30 frames. At 2 frames per second, in the zone
  \<open>utc\<close>, \<^verbatim>\<open>_add_video_end_info\<close> turns them into \<open>boundary_timeline\<close>.
\<close>

definition boundary_files :: "file_epoch list" where
  "boundary_files =
     [\<lparr>filename = ''a.h264'', epoch_ts = 0\<rparr>,
      \<lparr>filename = ''b.h264'', epoch_ts = 10\<rparr>,
      \<lparr>filename = ''c.h264'', epoch_ts = 25\<rparr>]"

definition boundary_counts :: "count_row list" where
  "boundary_counts = [\<lparr>cnt_filename = ''c.h264'', cnt_datetime = 25, frames = 30\<rparr>]"

definition boundary_timeline :: "video_info list" where
  "boundary_timeline =
     [\<lparr>filename = ''a.h264'', epoch_ts = 0, length_col = 10, end_epoch_ts = 10\<rparr>,
      \<lparr>filename = ''b.h264'', epoch_ts = 10, length_col = 15, end_epoch_ts = 25\<rparr>,
      \<lparr>filename = ''c.h264'', epoch_ts = 25, length_col = 15, end_epoch_ts = 40\<rparr>]"

section \<open>Properties\<close>

subsection \<open>The loop, one iteration at a time\<close>

declare overflow_walk.simps [simp del]

lemma overflow_walk_stop:
  "\<not> leftover > 0 \<Longrightarrow> overflow_walk df cls fps leftover i acc = Inr acc"
  by (subst overflow_walk.simps) simp

lemma overflow_walk_exhausted:
  "leftover > 0 \<Longrightarrow> \<not> i < length df \<Longrightarrow>
   overflow_walk df cls fps leftover i acc = Inl IndexError"
  by (subst overflow_walk.simps) simp

lemma overflow_walk_ends:
  "leftover > 0 \<Longrightarrow> i < length df \<Longrightarrow> leftover < length_col (df ! i) \<Longrightarrow>
   overflow_walk df cls fps leftover i acc =
     Inr (acc @ [\<lparr>lbl_filename = filename (df ! i), lbl_class = cls,
                  start_frame = min 4 (leftover * of_int fps),
                  end_frame = leftover * of_int fps\<rparr>])"
  by (subst overflow_walk.simps) (simp add: Let_def overflow_walk_stop)

lemma overflow_walk_continues:
  "leftover > 0 \<Longrightarrow> i < length df \<Longrightarrow> \<not> leftover < length_col (df ! i) \<Longrightarrow>
   overflow_walk df cls fps leftover i acc =
     overflow_walk df cls fps (leftover - length_col (df ! i)) (Suc i)
       (acc @ [\<lparr>lbl_filename = filename (df ! i), lbl_class = cls,
                start_frame = min 4 (leftover * of_int fps),
                end_frame = length_col (df ! i)\<rparr>])"
  by (subst overflow_walk.simps) (simp add: Let_def)

text \<open>
  The loop from position \<open>i\<close> computes what the specification's walk computes on the
  rows from \<open>i\<close> on, and appends it to the labels collected so far.
\<close>

lemma overflow_walk_spec:
  "overflow_walk df cls fps leftover i acc =
     (case spec_overflow_rows (drop i df) cls fps leftover of
        None \<Rightarrow> Inl IndexError
      | Some rows \<Rightarrow> Inr (acc @ rows))"
proof (induction "length df - i" arbitrary: i leftover acc)
  case 0
  then have "drop i df = []" by simp
  then show ?case
    by (cases "leftover > 0") (simp_all add: overflow_walk_stop overflow_walk_exhausted 0)
next
  case (Suc n)
  then have i: "i < length df" and n: "n = length df - Suc i" by simp_all
  then have d: "drop i df = df ! i # drop (Suc i) df"
    by (simp add: Cons_nth_drop_Suc)
  consider "\<not> leftover > 0" | "leftover > 0" "leftover < length_col (df ! i)"
    | "leftover > 0" "\<not> leftover < length_col (df ! i)" by blast
  then show ?case
  proof cases
    case 1
    then show ?thesis by (simp add: overflow_walk_stop d)
  next
    case 2
    then show ?thesis using i by (simp add: overflow_walk_ends d)
  next
    case 3
    show ?thesis
      unfolding overflow_walk_continues[OF 3(1) i 3(2)] Suc.hyps(1)[OF n] d
      using 3
      by (cases "spec_overflow_rows (drop (Suc i) df) cls fps (leftover - length_col (df ! i))")
         simp_all
  qed
qed

lemma overflow_walk_acc:
  "overflow_walk df cls fps leftover i acc = Inr out \<longleftrightarrow>
   (\<exists>rows. overflow_walk df cls fps leftover i [] = Inr rows \<and> out = acc @ rows)"
  by (cases "spec_overflow_rows (drop i df) cls fps leftover")
     (auto simp add: overflow_walk_spec[of df cls fps leftover i])

text \<open>The two branches of the loop body for one event.\<close>

lemma label_event_contained:
  assumes "starting_video_index (ts row) df = Inr idx"
    and "\<not> end_ts row > end_epoch_ts (df ! idx)"
  shows "label_event df fps row acc =
     Inr (acc @ [\<lparr>lbl_filename = filename (df ! idx), lbl_class = event_type row,
                  start_frame = of_int ((ts row - epoch_ts (df ! idx)) * fps),
                  end_frame = of_int ((end_ts row - epoch_ts (df ! idx)) * fps)\<rparr>])"
  using assms by (simp add: label_event_def Let_def)

lemma label_event_overflow:
  assumes "starting_video_index (ts row) df = Inr idx"
    and "end_ts row > end_epoch_ts (df ! idx)"
  shows "label_event df fps row acc =
     (case overflow_walk df (event_type row) fps
             (of_int (end_ts row - end_epoch_ts (df ! idx))) (Suc idx) [] of
        Inl e \<Rightarrow> Inl e
      | Inr rows \<Rightarrow>
          Inr (acc @ rows
                 @ [\<lparr>lbl_filename = filename (df ! idx), lbl_class = event_type row,
                      start_frame = of_int ((ts row - epoch_ts (df ! idx)) * fps),
                      end_frame = of_int ((py_int (length_col (df ! idx)) - 1) * fps)\<rparr>]))"
proof (cases "spec_overflow_rows (drop (Suc idx) df) (event_type row) fps
                (of_int (end_ts row - end_epoch_ts (df ! idx)))")
  case None
  then show ?thesis using assms
    by (simp add: label_event_def Let_def overflow_walk_spec)
next
  case (Some rows)
  then show ?thesis using assms
    by (simp add: label_event_def Let_def overflow_walk_spec)
qed

lemma label_event_acc:
  "label_event df fps row acc =
     (case label_event df fps row [] of Inl e \<Rightarrow> Inl e | Inr rows \<Rightarrow> Inr (acc @ rows))"
proof (cases "starting_video_index (ts row) df")
  case (Inl e)
  then show ?thesis by (simp add: label_event_def)
next
  case (Inr idx)
  show ?thesis
  proof (cases "end_ts row > end_epoch_ts (df ! idx)")
    case False
    then show ?thesis by (simp add: label_event_contained[OF Inr])
  next
    case True
    show ?thesis
      unfolding label_event_overflow[OF Inr True]
      by (simp split: sum.splits)
  qed
qed

text \<open>An event on which the loop body raises ends the loop with an exception.\<close>

lemma iter_events_fail:
  "row \<in> set rows \<Longrightarrow> isl (label_event df fps row []) \<Longrightarrow>
   isl (iter_events df fps rows acc)"
proof (induction rows arbitrary: acc)
  case Nil
  then show ?case by simp
next
  case (Cons r rs)
  show ?case
  proof (cases "label_event df fps r acc")
    case (Inl e)
    then show ?thesis by simp
  next
    case (Inr acc')
    then have "\<not> isl (label_event df fps r [])"
      by (subst (asm) label_event_acc) (simp split: sum.splits)
    with Cons.prems have "row \<in> set rs" by auto
    with Cons.IH Cons.prems(2) Inr show ?thesis by simp
  qed
qed

lemma boundary_timeline_built:
  "add_video_end_info utc boundary_files boundary_counts 2 = Inr boundary_timeline"
  by code_simp

subsection \<open>The lookup of the starting video\<close>

lemma argmin_scan_least:
  "(argmin_scan xs i best v = best \<and> (\<forall>x\<in>set xs. v \<le> x)) \<or>
   (\<exists>j<length xs. argmin_scan xs i best v = i + j \<and> xs ! j < v \<and> (\<forall>x\<in>set xs. xs ! j \<le> x))"
proof (induction xs arbitrary: i best v)
  case Nil
  then show ?case by simp
next
  case (Cons x xs)
  show ?case
  proof (cases "x < v")
    case True
    from Cons.IH[of "Suc i" i x] show ?thesis
    proof
      assume "argmin_scan xs (Suc i) i x = i \<and> (\<forall>y\<in>set xs. x \<le> y)"
      then have "argmin_scan (x # xs) i best v = i + 0 \<and> (x # xs) ! 0 < v
                 \<and> (\<forall>y\<in>set (x # xs). (x # xs) ! 0 \<le> y)"
        using True by simp
      then show ?thesis by blast
    next
      assume "\<exists>j<length xs. argmin_scan xs (Suc i) i x = Suc i + j \<and> xs ! j < x
                \<and> (\<forall>y\<in>set xs. xs ! j \<le> y)"
      then obtain j where j: "j < length xs" "argmin_scan xs (Suc i) i x = Suc i + j"
        "xs ! j < x" "\<forall>y\<in>set xs. xs ! j \<le> y" by blast
      then have "Suc j < length (x # xs) \<and> argmin_scan (x # xs) i best v = i + Suc j
                 \<and> (x # xs) ! Suc j < v \<and> (\<forall>y\<in>set (x # xs). (x # xs) ! Suc j \<le> y)"
        using True by auto
      then show ?thesis by blast
    qed
  next
    case False
    from Cons.IH[of "Suc i" best v] show ?thesis
    proof
      assume "argmin_scan xs (Suc i) best v = best \<and> (\<forall>y\<in>set xs. v \<le> y)"
      then show ?thesis using False by simp
    next
      assume "\<exists>j<length xs. argmin_scan xs (Suc i) best v = Suc i + j \<and> xs ! j < v
                \<and> (\<forall>y\<in>set xs. xs ! j \<le> y)"
      then obtain j where j: "j < length xs" "argmin_scan xs (Suc i) best v = Suc i + j"
        "xs ! j < v" "\<forall>y\<in>set xs. xs ! j \<le> y" by blast
      then have "Suc j < length (x # xs) \<and> argmin_scan (x # xs) i best v = i + Suc j
                 \<and> (x # xs) ! Suc j < v \<and> (\<forall>y\<in>set (x # xs). (x # xs) ! Suc j \<le> y)"
        using False by auto
      then show ?thesis by blast
    qed
  qed
qed

lemma np_argmin_least:
  assumes "xs \<noteq> []"
  shows "\<exists>k<length xs. np_argmin xs = Inr k \<and> (\<forall>x\<in>set xs. xs ! k \<le> x)"
proof -
  from assms obtain x rest where xs: "xs = x # rest" by (cases xs) auto
  from argmin_scan_least[of rest 1 0 x] show ?thesis
  proof
    assume "argmin_scan rest 1 0 x = 0 \<and> (\<forall>y\<in>set rest. x \<le> y)"
    then show ?thesis by (simp add: xs np_argmin_def)
  next
    assume "\<exists>j<length rest. argmin_scan rest 1 0 x = 1 + j \<and> rest ! j < x
              \<and> (\<forall>y\<in>set rest. rest ! j \<le> y)"
    then obtain j where "j < length rest" "argmin_scan rest 1 0 x = Suc j" "rest ! j < x"
      "\<forall>y\<in>set rest. rest ! j \<le> y" by auto
    then have "Suc j < length xs \<and> np_argmin xs = Inr (Suc j) \<and> (\<forall>y\<in>set xs. xs ! Suc j \<le> y)"
      by (auto simp add: xs np_argmin_def)
    then show ?thesis by blast
  qed
qed

lemma find_latest_video_none:
  assumes "\<forall>r\<in>set df. \<not> epoch_ts r < t"
  shows "find_latest_video t df = Inl ValueError"
proof -
  from assms have "filter (\<lambda>r. epoch_ts r < t) df = []" by (simp add: filter_empty_conv)
  then show ?thesis by (simp add: find_latest_video_def np_argmin_def)
qed

lemma find_latest_video_some:
  assumes "\<exists>r\<in>set df. epoch_ts r < t"
  shows "\<exists>k<length df. find_latest_video t df = Inr (filename (df ! k)) \<and> epoch_ts (df ! k) < t
           \<and> (\<forall>r\<in>set df. epoch_ts r < t \<longrightarrow> epoch_ts r \<le> epoch_ts (df ! k))"
proof -
  define earlier where "earlier = filter (\<lambda>r. epoch_ts r < t) df"
  define ds where "ds = map (\<lambda>r. \<bar>epoch_ts r - t\<bar>) earlier"
  from assms have ne: "ds \<noteq> []" by (auto simp add: ds_def earlier_def filter_empty_conv)
  from np_argmin_least[OF ne] obtain k where k: "k < length ds" "np_argmin ds = Inr k"
    "\<forall>x\<in>set ds. ds ! k \<le> x" by blast
  have kl: "k < length earlier" using k(1) by (simp add: ds_def)
  then have mem: "earlier ! k \<in> set earlier" by simp
  then have in_df: "earlier ! k \<in> set df" and lt: "epoch_ts (earlier ! k) < t"
    by (simp_all add: earlier_def)
  have best: "epoch_ts r \<le> epoch_ts (earlier ! k)" if "r \<in> set df" "epoch_ts r < t" for r
  proof -
    from that have "r \<in> set earlier" by (simp add: earlier_def)
    then have "\<bar>epoch_ts r - t\<bar> \<in> set ds" by (simp add: ds_def)
    with k(3) have "ds ! k \<le> \<bar>epoch_ts r - t\<bar>" by blast
    moreover have "ds ! k = \<bar>epoch_ts (earlier ! k) - t\<bar>" using kl by (simp add: ds_def)
    ultimately show ?thesis using that(2) lt by linarith
  qed
  have res: "find_latest_video t df = Inr (filename (earlier ! k))"
    using k(2) by (simp add: find_latest_video_def earlier_def ds_def)
  from in_df obtain i where "i < length df" "df ! i = earlier ! k"
    by (auto simp add: in_set_conv_nth)
  with res lt best show ?thesis by metis
qed

lemma unique_filename_index:
  assumes "distinct (map filename df)" and "k < length df"
  shows "filter (\<lambda>i. filename (df ! i) = filename (df ! k)) [0..<length df] = [k]"
proof -
  have eq: "filename (df ! i) = filename (df ! k) \<longleftrightarrow> i = k" if "i < length df" for i
    using nth_eq_iff_index_eq[OF assms(1), of i k] that assms(2) by simp
  have "filter (\<lambda>i. filename (df ! i) = filename (df ! k)) [0..<length df]
        = filter (\<lambda>i. i = k) [0..<length df]"
    by (rule filter_cong) (simp_all add: eq)
  also have "\<dots> = [k]"
  proof -
    have "[0..<length df] = [0..<k] @ k # [Suc k..<length df]"
      using assms(2) by (metis le0 less_imp_le_nat upt_add_eq_append upt_conv_Cons
          le_add_diff_inverse plus_nat.add_0)
    then show ?thesis by (simp add: filter_empty_conv)
  qed
  finally show ?thesis .
qed

lemma starting_video_index_none:
  assumes "\<forall>r\<in>set df. \<not> epoch_ts r < t"
  shows "starting_video_index t df = Inl ValueError"
  by (simp add: starting_video_index_def find_latest_video_none[OF assms])

lemma starting_video_index_some:
  assumes "distinct (map filename df)" and "\<exists>r\<in>set df. epoch_ts r < t"
  shows "\<exists>k<length df. starting_video_index t df = Inr k
           \<and> find_latest_video t df = Inr (filename (df ! k)) \<and> epoch_ts (df ! k) < t
           \<and> (\<forall>r\<in>set df. epoch_ts r < t \<longrightarrow> epoch_ts r \<le> epoch_ts (df ! k))"
proof -
  from find_latest_video_some[OF assms(2)] obtain k where k: "k < length df"
    "find_latest_video t df = Inr (filename (df ! k))" "epoch_ts (df ! k) < t"
    "\<forall>r\<in>set df. epoch_ts r < t \<longrightarrow> epoch_ts r \<le> epoch_ts (df ! k)" by blast
  have "starting_video_index t df = Inr k"
    by (simp add: starting_video_index_def k(2) unique_filename_index[OF assms(1) k(1)])
  with k show ?thesis by blast
qed

lemma starting_video_index_Inr:
  assumes "starting_video_index t df = Inr idx"
  shows "idx < length df \<and> find_latest_video t df = Inr (filename (df ! idx))
         \<and> epoch_ts (df ! idx) < t
         \<and> (\<forall>r\<in>set df. epoch_ts r < t \<longrightarrow> epoch_ts r \<le> epoch_ts (df ! idx))"
proof -
  from assms obtain fn where fn: "find_latest_video t df = Inr fn"
    and f: "filter (\<lambda>i. filename (df ! i) = fn) [0..<length df] = [idx]"
    by (auto simp add: starting_video_index_def split: sum.splits list.splits)
  have "\<exists>r\<in>set df. epoch_ts r < t"
  proof (rule ccontr)
    assume "\<not> (\<exists>r\<in>set df. epoch_ts r < t)"
    then have "find_latest_video t df = Inl ValueError"
      by (intro find_latest_video_none) blast
    with fn show False by simp
  qed
  from find_latest_video_some[OF this] obtain k where k: "k < length df"
    "find_latest_video t df = Inr (filename (df ! k))" "epoch_ts (df ! k) < t"
    "\<forall>r\<in>set df. epoch_ts r < t \<longrightarrow> epoch_ts r \<le> epoch_ts (df ! k)" by blast
  from k(2) fn have "fn = filename (df ! k)" by simp
  with k(1) have "k \<in> set (filter (\<lambda>i. filename (df ! i) = fn) [0..<length df])" by simp
  with f have "k = idx" by simp
  with k show ?thesis by blast
qed

subsection \<open>The columns the end information keeps\<close>

lemma shift_fill_video_epochs:
  "map epoch_ts (shift_fill_video fm q e) = map epoch_ts fm"
  by (induction fm q e rule: shift_fill_video.induct) (simp_all add: file_epoch.defs)

lemma shift_fill_video_filenames:
  "map filename (shift_fill_video fm q e) = map filename fm"
  by (induction fm q e rule: shift_fill_video.induct) (simp_all add: file_epoch.defs)

lemma shift_fill_event_ts:
  "map ts (shift_fill_event evs e) = map ts evs"
  by (induction evs e rule: shift_fill_event.induct) (simp_all add: event.defs)

lemma add_video_end_info_epochs:
  "add_video_end_info tz fm counts fps = Inr df \<Longrightarrow> map epoch_ts df = map epoch_ts fm"
  by (auto simp add: add_video_end_info_def Let_def shift_fill_video_epochs
        split: if_splits sum.splits)

lemma add_event_end_info_ts:
  "add_event_end_info tz events counts fps = Inr evs \<Longrightarrow> map ts evs = map ts events"
  by (auto simp add: add_event_end_info_def shift_fill_event_ts split: if_splits sum.splits)

lemma add_event_end_info_ok:
  "events \<noteq> [] \<Longrightarrow> add_video_end_info tz fm counts fps = Inr df \<Longrightarrow>
   \<exists>evs. add_event_end_info tz events counts fps = Inr evs"
  by (auto simp add: add_event_end_info_def add_video_end_info_def Let_def
        split: if_splits sum.splits)

subsection \<open>Runs that end with an exception\<close>

lemma run_thru_events_fail:
  assumes "add_video_end_info tz fm counts fps = Inr df"
    and "add_event_end_info tz events counts fps = Inr evs"
    and "row \<in> set evs" and "isl (label_event df fps row [])"
  shows "isl (run_thru_events tz events counts fm fps)"
  using iter_events_fail[OF assms(3,4), of "[]"] assms(1,2)
  by (simp add: run_thru_events_def)

lemma iter_events_append:
  "iter_events df fps (pre @ rest) acc =
     (case iter_events df fps pre acc of Inl e \<Rightarrow> Inl e | Inr out \<Rightarrow> iter_events df fps rest out)"
  by (induction pre arbitrary: acc) (simp_all split: sum.splits)

lemma spec_overflow_rows_exhausted:
  "\<forall>s\<in>set segs. 0 \<le> length_col s \<Longrightarrow> sum_list (map length_col segs) < leftover \<Longrightarrow>
   spec_overflow_rows segs cls fps leftover = None"
proof (induction segs arbitrary: leftover)
  case Nil
  then show ?case by simp
next
  case (Cons s segs)
  have nonneg: "0 \<le> sum_list (map length_col segs)"
    using Cons.prems(1) by (intro sum_list_nonneg) auto
  have s0: "0 \<le> length_col s" using Cons.prems(1) by simp
  from Cons.prems(2) have lt: "length_col s + sum_list (map length_col segs) < leftover" by simp
  with nonneg s0 have pos: "leftover > 0" and ge: "\<not> leftover < length_col s" by linarith+
  have "spec_overflow_rows segs cls fps (leftover - length_col s) = None"
    using Cons.prems(1) lt by (intro Cons.IH) auto
  with pos ge show ?case by simp
qed

subsection \<open>The float division\<close>

text \<open>
  Integers below \<open>2 ^ 53\<close> are floats, so a quotient that is an integer is exact. The
  rounding error is at most the \<open>2 ^ 53\<close>-th part of the value, so truncating the float
  quotient of a non-negative count by a positive rate gives the integer quotient.
\<close>

lemma round_half_even_of_int: "round_half_even (of_int m) = m"
  by (simp add: round_half_even_def)

lemma binary_exponent_of_int:
  assumes "\<bar>n\<bar> < 2 ^ 53"
  shows "binary_exponent (of_int n) \<le> 52"
proof -
  have q: "quotient_of \<bar>of_int n :: rat\<bar> = (\<bar>n\<bar>, 1)"
    by (metis of_int_abs Rat.of_int_def quotient_of_int)
  have b1: "bitlen 1 = 1" by (simp add: bitlen_alt_def)
  have "bitlen \<bar>n\<bar> \<le> 53"
  proof (cases "n = 0")
    case True
    then show ?thesis by simp
  next
    case False
    then have "0 < \<bar>n\<bar>" by simp
    from bitlen_bounds[OF this] assms have "(2::int) ^ nat (bitlen \<bar>n\<bar> - 1) < 2 ^ 53" by linarith
    then have "nat (bitlen \<bar>n\<bar> - 1) < 53"
      by (rule power_less_imp_less_exp[rotated]) simp
    then show ?thesis by linarith
  qed
  then show ?thesis
    by (simp add: binary_exponent_def q b1 Let_def)
qed

lemma float64_of_int:
  assumes "\<bar>n\<bar> < 2 ^ 53"
  shows "float64 (of_int n) = of_int n"
proof (cases "n = 0")
  case True
  then show ?thesis by (simp add: float64_def)
next
  case False
  define k where "k = nat (52 - binary_exponent (of_int n))"
  from binary_exponent_of_int[OF assms] have e: "binary_exponent (of_int n) - 52 \<le> 0" by simp
  have ulp: "pow2 (binary_exponent (of_int n) - 52) = 1 / 2 ^ k"
  proof (cases "binary_exponent (of_int n) - 52 = 0")
    case True
    then show ?thesis by (simp add: pow2_def k_def)
  next
    case False
    with e have "binary_exponent (of_int n) - 52 < 0" by simp
    then show ?thesis by (simp add: pow2_def k_def)
  qed
  have "(of_int n :: rat) / (1 / 2 ^ k) = of_int (n * 2 ^ k)" by simp
  then have "round_half_even (of_int n / (1 / 2 ^ k)) = n * 2 ^ k"
    by (simp only: round_half_even_of_int)
  then show ?thesis using False by (simp add: float64_def ulp Let_def)
qed

lemma true_divide_exact:
  assumes "b dvd a" and "b \<noteq> 0" and "\<bar>a\<bar> < 2 ^ 53" and "\<bar>b\<bar> < 2 ^ 53"
  shows "true_divide a b = of_int (a div b)"
proof -
  from assms(1) obtain c where c: "a = b * c" by (auto elim: dvdE)
  have "\<bar>c\<bar> * 1 \<le> \<bar>c\<bar> * \<bar>b\<bar>"
    using assms(2) by (intro mult_left_mono) simp_all
  then have "\<bar>a div b\<bar> \<le> \<bar>a\<bar>"
    using assms(2) by (simp add: c abs_mult mult.commute)
  with assms(3) have q: "\<bar>a div b\<bar> < 2 ^ 53" by linarith
  have "(of_int a :: rat) / of_int b = of_int (a div b)"
    using assms(1) by (simp add: of_int_div)
  then show ?thesis
    by (simp add: true_divide_def float64_of_int[OF assms(3)] float64_of_int[OF assms(4)]
        float64_of_int[OF q])
qed


lemma pow2_power_int: "pow2 e = power_int 2 e"
  by (simp add: pow2_def power_int_def inverse_eq_divide power_one_over)

lemma pow2_pos: "0 < pow2 e"
  by (simp add: pow2_power_int)

lemma round_half_even_error: "\<bar>of_int (round_half_even y) - y\<bar> \<le> 1 / 2"
proof -
  define d where "d = y - of_int \<lfloor>y\<rfloor>"
  have d: "0 \<le> d" "d < 1" unfolding d_def by linarith+
  have y: "y = of_int \<lfloor>y\<rfloor> + d" by (simp add: d_def)
  consider "d < 1 / 2" | "1 / 2 < d" | "d = 1 / 2" by linarith
  then show ?thesis
  proof cases
    case 1
    then have "round_half_even y = \<lfloor>y\<rfloor>"
      by (simp add: round_half_even_def Let_def d_def)
    then show ?thesis using 1 d y by linarith
  next
    case 2
    then have "round_half_even y = \<lfloor>y\<rfloor> + 1"
      by (simp add: round_half_even_def Let_def d_def)
    then show ?thesis using 2 d y by (simp add: d_def)
  next
    case 3
    then have "round_half_even y = \<lfloor>y\<rfloor> \<or> round_half_even y = \<lfloor>y\<rfloor> + 1"
      by (simp add: round_half_even_def Let_def d_def)
    then show ?thesis using 3 y by (auto simp add: d_def) 
  qed
qed

lemma binary_exponent_le:
  assumes "x \<noteq> 0"
  shows "pow2 (binary_exponent x) \<le> \<bar>x\<bar>"
proof -
  obtain p q where pq: "quotient_of \<bar>x\<bar> = (p, q)" by (cases "quotient_of \<bar>x\<bar>")
  then have q: "0 < q" by (rule quotient_of_denom_pos)
  have x: "\<bar>x\<bar> = of_int p / of_int q" using quotient_of_div[OF pq] .
  have "0 < \<bar>x\<bar>" using assms by simp
  with x q have p: "0 < p" by (simp add: zero_less_divide_iff)
  define e where "e = bitlen p - bitlen q"
  show ?thesis
  proof (cases "pow2 e \<le> \<bar>x\<bar>")
    case True
    then show ?thesis by (simp add: binary_exponent_def pq e_def Let_def)
  next
    case False
    have bp: "1 \<le> bitlen p" and bq: "1 \<le> bitlen q"
      using p q bitlen_nonneg[of p] bitlen_nonneg[of q] bitlen_eq_zero_iff[of p] bitlen_eq_zero_iff[of q]
      by linarith+
    from bitlen_bounds[OF p] have "p \<ge> 2 ^ nat (bitlen p - 1)" by simp
    then have "(of_int p :: rat) \<ge> of_int (2 ^ nat (bitlen p - 1))" by (simp only: of_int_le_iff)
    then have lo: "(2::rat) ^ nat (bitlen p - 1) \<le> of_int p" by simp
    from bitlen_bounds[OF q] have "q < 2 ^ nat (bitlen q)" by simp
    then have "(of_int q :: rat) < of_int (2 ^ nat (bitlen q))" by (simp only: of_int_less_iff)
    then have hi: "(of_int q :: rat) \<le> 2 ^ nat (bitlen q)" by simp
    have pw: "pow2 (e - 1) = 2 ^ nat (bitlen p - 1) / 2 ^ nat (bitlen q)"
    proof -
      have "e - 1 = int (nat (bitlen p - 1)) - int (nat (bitlen q))"
        using bp bq by (simp add: e_def)
      then show ?thesis
        by (simp only: pow2_power_int power_int_diff[of "2::rat", simplified] power_int_of_nat)
    qed
    have q': "(0::rat) < of_int q" using q by simp
    have "(2::rat) ^ nat (bitlen p - 1) / 2 ^ nat (bitlen q) \<le> of_int p / of_int q"
      by (rule frac_le[OF _ lo q' hi]) (use p in simp)
    then have "pow2 (e - 1) \<le> of_int p / of_int q" by (simp only: pw)
    moreover have "binary_exponent x = e - 1"
      using False by (simp add: binary_exponent_def pq e_def Let_def)
    ultimately show ?thesis by (simp only: x)
  qed
qed

lemma float64_error:
  "\<bar>float64 x - x\<bar> \<le> \<bar>x\<bar> / 2 ^ 53"
proof (cases "x = 0")
  case True
  then show ?thesis by (simp add: float64_def)
next
  case False
  define ulp where "ulp = pow2 (binary_exponent x - 52)"
  have pos: "0 < ulp" by (simp add: ulp_def pow2_pos)
  have "ulp = pow2 (binary_exponent x) / 2 ^ 52"
    by (simp only: ulp_def pow2_power_int power_int_diff[of "2::rat", simplified]) simp
  with binary_exponent_le[OF False] have ulp: "ulp \<le> \<bar>x\<bar> / 2 ^ 52"
    by (simp add: divide_right_mono)
  have "float64 x - x = (of_int (round_half_even (x / ulp)) - x / ulp) * ulp"
    using False pos by (simp add: float64_def ulp_def[symmetric] Let_def algebra_simps)
  then have "\<bar>float64 x - x\<bar> = \<bar>of_int (round_half_even (x / ulp)) - x / ulp\<bar> * ulp"
    using pos by (simp add: abs_mult)
  also have "\<dots> \<le> 1 / 2 * ulp"
    using round_half_even_error[of "x / ulp"] pos by (intro mult_right_mono) simp_all
  also have "\<dots> \<le> 1 / 2 * (\<bar>x\<bar> / 2 ^ 52)"
    using ulp by simp
  finally show ?thesis by simp
qed

lemma py_int_true_divide:
  assumes "0 \<le> a" and "a < 2 ^ 53" and "0 < b" and "b < 2 ^ 53"
  shows "py_int (true_divide a b) = a div b"
proof -
  define x :: rat where "x = of_int a / of_int b"
  have fa: "float64 (of_int a) = of_int a" using assms(1,2) by (intro float64_of_int) simp
  have fb: "float64 (of_int b) = of_int b" using assms(3,4) by (intro float64_of_int) simp
  have td: "true_divide a b = float64 x" by (simp add: true_divide_def fa fb x_def)
  have b0: "(0::rat) < of_int b" using assms(3) by simp
  have x0: "0 \<le> x" using assms(1,3) by (simp add: x_def)
  have q0: "0 \<le> a div b" using assms(1,3) by (simp add: pos_imp_zdiv_nonneg_iff)
  show ?thesis
  proof (cases "a mod b = 0")
    case True
    then have dvd: "b dvd a" by auto
    have "b \<noteq> 0" "\<bar>a\<bar> < 2 ^ 53" "\<bar>b\<bar> < 2 ^ 53" using assms by simp_all
    from true_divide_exact[OF dvd this] show ?thesis by (simp add: py_int_def)
  next
    case False
    have r: "1 \<le> a mod b" "a mod b \<le> b - 1"
      using False assms(3) pos_mod_sign[of b a] pos_mod_bound[of b a] by linarith+
    have xq: "x = of_int (a div b) + of_int (a mod b) / of_int b"
    proof -
      have "a = b * (a div b) + a mod b" by simp
      then have "(of_int a :: rat) = of_int (b * (a div b) + a mod b)" by (rule arg_cong)
      then have "(of_int a :: rat) = of_int b * of_int (a div b) + of_int (a mod b)"
        by (simp only: of_int_add of_int_mult)
      then show ?thesis using b0 by (simp add: x_def add_divide_distrib)
    qed
    have "(1::rat) \<le> of_int (a mod b)" using r(1) by (simp only: of_int_1_le_iff)
    then have lo: "of_int (a div b) + 1 / of_int b \<le> x"
      using b0 by (simp add: xq divide_right_mono)
    have "(of_int (a mod b) :: rat) \<le> of_int (b - 1)" using r(2) by (simp only: of_int_le_iff)
    then have "(of_int (a mod b) :: rat) / of_int b \<le> of_int (b - 1) / of_int b"
      using b0 by (simp add: divide_right_mono)
    also have "\<dots> = 1 - 1 / of_int b" using b0 by (simp add: diff_divide_distrib)
    finally have hi: "x \<le> of_int (a div b) + 1 - 1 / of_int b" by (simp add: xq)
    have "(of_int a :: rat) < of_int (2 ^ 53)" using assms(2) by (simp only: of_int_less_iff)
    then have "(of_int a :: rat) / 2 ^ 53 < 1" by simp
    then have "(of_int a / 2 ^ 53) / of_int b < (1::rat) / of_int b"
      using b0 by (rule divide_strict_right_mono)
    then have small: "x / 2 ^ 53 < 1 / of_int b" by (simp add: x_def)
    from float64_error[of x] x0 have "\<bar>float64 x - x\<bar> \<le> x / 2 ^ 53" by simp
    with small have err: "\<bar>float64 x - x\<bar> < 1 / of_int b" by linarith
    from err lo have ge: "of_int (a div b) \<le> float64 x" by linarith
    from err hi have lt: "float64 x < of_int (a div b) + 1" by linarith
    have "\<lfloor>float64 x\<rfloor> = a div b" using ge lt by (rule floor_unique)
    moreover have "0 \<le> float64 x" using ge q0 by (meson of_int_0_le_iff order_trans)
    ultimately show ?thesis by (simp add: py_int_def td)
  qed
qed

subsection \<open>The built timeline\<close>

lemma length_shift_fill_video: "length (shift_fill_video fm q e) = length fm"
  by (induction fm q e rule: shift_fill_video.induct) simp_all

lemma shift_fill_video_nth:
  "Suc i < length fm \<Longrightarrow>
   length_col (shift_fill_video fm q e ! i) = of_int (epoch_ts (fm ! Suc i) - epoch_ts (fm ! i))
   \<and> end_epoch_ts (shift_fill_video fm q e ! i) = epoch_ts (fm ! Suc i)"
proof (induction fm q e arbitrary: i rule: shift_fill_video.induct)
  case (3 r r' rs q e)
  then show ?case by (cases i) (simp_all add: file_epoch.defs)
qed simp_all

lemma shift_fill_video_Nil: "shift_fill_video fm q e = [] \<longleftrightarrow> fm = []"
  by (metis length_0_conv length_shift_fill_video)

lemma shift_fill_video_last:
  "fm \<noteq> [] \<Longrightarrow>
   length_col (last (shift_fill_video fm q e)) = q \<and> end_epoch_ts (last (shift_fill_video fm q e)) = e"
  by (induction fm q e rule: shift_fill_video.induct)
     (simp_all add: file_epoch.defs shift_fill_video_Nil)

lemma add_video_end_info_Inr:
  assumes "add_video_end_info tz fm counts fps = Inr df"
  shows "fm \<noteq> [] \<and> counts \<noteq> [] \<and> fps \<noteq> 0
         \<and> add_seconds (cnt_datetime (last counts)) (py_int (true_divide (frames (last counts)) fps))
             = Inr (cnt_datetime (last counts) + py_int (true_divide (frames (last counts)) fps))
         \<and> df = shift_fill_video fm (true_divide (frames (last counts)) fps)
                  (tz (cnt_datetime (last counts)
                        + py_int (true_divide (frames (last counts)) fps)))"
  using assms
  by (auto simp add: add_video_end_info_def add_seconds_def Let_def split: if_splits sum.splits)

lemma built_timeline_inner:
  assumes "add_video_end_info tz fm counts fps = Inr df" and "Suc i < length df"
  shows "length_col (df ! i) = of_int (epoch_ts (df ! Suc i) - epoch_ts (df ! i))
         \<and> end_epoch_ts (df ! i) = epoch_ts (df ! Suc i)"
proof -
  from add_video_end_info_Inr[OF assms(1)] obtain q e where df: "df = shift_fill_video fm q e"
    by blast
  from assms(2) have i: "Suc i < length fm" by (simp add: df length_shift_fill_video)
  have "map epoch_ts df ! j = map epoch_ts fm ! j" for j
    by (simp add: df shift_fill_video_epochs)
  from this[of i] this[of "Suc i"] i assms(2)
  have "epoch_ts (df ! i) = epoch_ts (fm ! i)" "epoch_ts (df ! Suc i) = epoch_ts (fm ! Suc i)"
    by simp_all
  with shift_fill_video_nth[OF i, of q e] show ?thesis by (simp add: df)
qed

lemma py_int_of_int: "py_int (of_int n) = n"
  by (simp add: py_int_def)

subsection \<open>The rows of the walk, one by one\<close>

text \<open>
  Row \<open>k\<close> of the walk belongs to the \<open>k\<close>-th following video; the leftover it is
  computed from is the initial one minus the lengths of the videos passed before.
\<close>

lemma spec_overflow_rows_nth:
  "spec_overflow_rows segs cls fps leftover = Some rows \<Longrightarrow> k < length rows \<Longrightarrow>
   k < length segs
   \<and> 0 < leftover - sum_list (map length_col (take k segs))
   \<and> rows ! k =
       \<lparr>lbl_filename = filename (segs ! k), lbl_class = cls,
        start_frame = min 4 ((leftover - sum_list (map length_col (take k segs))) * of_int fps),
        end_frame =
          (if leftover - sum_list (map length_col (take k segs)) < length_col (segs ! k)
           then (leftover - sum_list (map length_col (take k segs))) * of_int fps
           else length_col (segs ! k))\<rparr>"
proof (induction segs arbitrary: leftover rows k)
  case Nil
  then show ?case by (simp split: if_splits)
next
  case (Cons s segs)
  show ?case
  proof (cases "leftover > 0")
    case False
    with Cons.prems show ?thesis by simp
  next
    case pos: True
    show ?thesis
    proof (cases "leftover < length_col s")
      case True
      with pos Cons.prems show ?thesis by auto
    next
      case False
      with pos Cons.prems(1) obtain rows' where
        r': "spec_overflow_rows segs cls fps (leftover - length_col s) = Some rows'"
        and rows: "rows = \<lparr>lbl_filename = filename s, lbl_class = cls,
                     start_frame = min 4 (leftover * of_int fps), end_frame = length_col s\<rparr> # rows'"
        by auto
      show ?thesis
      proof (cases k)
        case 0
        then show ?thesis using pos False rows by simp
      next
        case (Suc j)
        with Cons.prems(2) rows have j: "j < length rows'" by simp
        have eq: "leftover - length_col s - sum_list (map length_col (take j segs))
                  = leftover - sum_list (map length_col (take (Suc j) (s # segs)))"
          by simp
        from Cons.IH[OF r' j] show ?thesis
          unfolding eq Suc rows by simp
      qed
    qed
  qed
qed

subsection \<open>Events and the end of their owning video\<close>

text \<open>
  In a built timeline strictly ordered by start time, an event owned by a video that is not
  the last one starts no later than that video ends. An event of zero duration with such an
  owner therefore ends within its owning video.
\<close>

lemma event_start_within_owning_video:
  assumes "add_video_end_info tz fm counts fps = Inr df"
    and "sorted_wrt (<) (map epoch_ts df)"
    and "starting_video_index (ts row) df = Inr idx"
    and "Suc idx < length df"
  shows "ts row \<le> end_epoch_ts (df ! idx)"
proof (rule ccontr)
  assume "\<not> ts row \<le> end_epoch_ts (df ! idx)"
  moreover have "end_epoch_ts (df ! idx) = epoch_ts (df ! Suc idx)"
    using built_timeline_inner[OF assms(1,4)] by simp
  ultimately have "epoch_ts (df ! Suc idx) < ts row" by simp
  moreover have "df ! Suc idx \<in> set df" using assms(4) by simp
  ultimately have "epoch_ts (df ! Suc idx) \<le> epoch_ts (df ! idx)"
    using starting_video_index_Inr[OF assms(3)] by blast
  moreover have "epoch_ts (df ! idx) < epoch_ts (df ! Suc idx)"
    using sorted_wrt_nth_less[OF assms(2), of idx "Suc idx"] assms(4) by simp
  ultimately show False by simp
qed

section \<open>The claims\<close>

text \<open>
  C1. When some video starts strictly before the event, \<^verbatim>\<open>_find_latest_video\<close> returns
  the file name of a row that starts strictly before the event and no earlier than any
  other row that does: the video with the greatest start time below the event's. With
  distinct file names this row is the one the loop body works with. In a timeline
  strictly ordered by start time, an event that starts exactly at the start of a video is
  owned by the video before it, since the comparison is strict.
\<close>

theorem owning_segment_latest_earlier:
  assumes "\<exists>r\<in>set df. epoch_ts r < t"
  shows "\<exists>k<length df. find_latest_video t df = Inr (filename (df ! k))
           \<and> epoch_ts (df ! k) < t
           \<and> (\<forall>r\<in>set df. epoch_ts r < t \<longrightarrow> epoch_ts r \<le> epoch_ts (df ! k))
           \<and> (distinct (map filename df) \<longrightarrow> starting_video_index t df = Inr k)
           \<and> (\<forall>i. sorted_wrt (<) (map epoch_ts df) \<and> Suc i < length df \<and> t = epoch_ts (df ! Suc i)
                  \<longrightarrow> k = i)"
proof -
  from find_latest_video_some[OF assms] obtain k where k: "k < length df"
    "find_latest_video t df = Inr (filename (df ! k))" "epoch_ts (df ! k) < t"
    "\<forall>r\<in>set df. epoch_ts r < t \<longrightarrow> epoch_ts r \<le> epoch_ts (df ! k)" by blast
  have idx: "starting_video_index t df = Inr k" if "distinct (map filename df)"
    by (simp add: starting_video_index_def k(2) unique_filename_index[OF that k(1)])
  have tie: "k = i"
    if s: "sorted_wrt (<) (map epoch_ts df)" and i: "Suc i < length df"
      and t: "t = epoch_ts (df ! Suc i)" for i
  proof -
    have mono: "epoch_ts (df ! a) < epoch_ts (df ! b)" if "a < b" "b < length df" for a b
      using sorted_wrt_nth_less[OF s, of a b] that by simp
    have "epoch_ts (df ! i) < t" using mono[of i "Suc i"] i t by simp
    moreover have "df ! i \<in> set df" using i by simp
    ultimately have le: "epoch_ts (df ! i) \<le> epoch_ts (df ! k)" using k(4) by blast
    have "\<not> k < i"
    proof
      assume "k < i"
      then have "epoch_ts (df ! k) < epoch_ts (df ! i)" using mono[of k i] i by simp
      with le show False by simp
    qed
    moreover have "\<not> Suc i < k"
    proof
      assume "Suc i < k"
      then have "epoch_ts (df ! Suc i) < epoch_ts (df ! k)" using mono[of "Suc i" k] k(1) by simp
      with k(3) t show False by simp
    qed
    moreover have "k \<noteq> Suc i" using k(3) t by auto
    ultimately show ?thesis by linarith
  qed
  from k idx tie show ?thesis by blast
qed

theorem owning_segment_latest_earlier_witness:
  "find_latest_video 10 boundary_timeline = Inr ''a.h264''
   \<and> starting_video_index 10 boundary_timeline = Inr 0"
proof -
  have a: "\<exists>r\<in>set boundary_timeline. epoch_ts r < 10" by (simp add: boundary_timeline_def)
  have b: "distinct (map filename boundary_timeline)" by (simp add: boundary_timeline_def)
  have c: "sorted_wrt (<) (map epoch_ts boundary_timeline) \<and> Suc 0 < length boundary_timeline
           \<and> 10 = epoch_ts (boundary_timeline ! Suc 0)" by (simp add: boundary_timeline_def)
  have d: "filename (boundary_timeline ! 0) = ''a.h264''" by (simp add: boundary_timeline_def)
  from owning_segment_latest_earlier[OF a] obtain k where
    "find_latest_video 10 boundary_timeline = Inr (filename (boundary_timeline ! k))"
    "distinct (map filename boundary_timeline) \<longrightarrow> starting_video_index 10 boundary_timeline = Inr k"
    "\<forall>i. sorted_wrt (<) (map epoch_ts boundary_timeline) \<and> Suc i < length boundary_timeline
          \<and> 10 = epoch_ts (boundary_timeline ! Suc i) \<longrightarrow> k = i"
    by blast
  moreover from this(3) c have "k = 0" by blast
  ultimately show ?thesis using b d by simp
qed

text \<open>
  C2. For an event that ends after its owning video, in a timeline built by
  \<^verbatim>\<open>_add_video_end_info\<close>, the loop body computes exactly the overflow splitting of the
  specification: the rows of the specification's walk over the videos after the owning
  one, started with the leftover \<open>event end - owning end\<close>, followed by the row of the
  owning video with end frame \<open>(owning length - 1) * fps\<close>; it raises
  \<^verbatim>\<open>IndexError\<close> exactly when that walk runs out of videos. In the walk each row has start
  frame \<open>min 4 (leftover * fps)\<close>, and end frame \<open>leftover * fps\<close> (where the walk
  stops) or the video's length in seconds (where it goes on with the leftover decreased).
\<close>

theorem overflow_splitting:
  assumes "add_video_end_info tz fm counts fps = Inr df"
    and "starting_video_index (ts row) df = Inr idx"
    and "end_ts row > end_epoch_ts (df ! idx)"
  shows "label_event df fps row acc =
     (case spec_overflow_rows (drop (Suc idx) df) (event_type row) fps
             (of_int (end_ts row - end_epoch_ts (df ! idx))) of
        None \<Rightarrow> Inl IndexError
      | Some rows \<Rightarrow>
          Inr (acc @ rows
                 @ [\<lparr>lbl_filename = filename (df ! idx), lbl_class = event_type row,
                      start_frame = of_int ((ts row - epoch_ts (df ! idx)) * fps),
                      end_frame = (length_col (df ! idx) - 1) * of_int fps\<rparr>]))"
proof (cases "spec_overflow_rows (drop (Suc idx) df) (event_type row) fps
                (of_int (end_ts row - end_epoch_ts (df ! idx)))")
  case None
  show ?thesis
    unfolding label_event_overflow[OF assms(2,3)] overflow_walk_spec None by simp
next
  case (Some rows)
  have pos: "(0::rat) < of_int (end_ts row - end_epoch_ts (df ! idx))" using assms(3) by simp
  have "drop (Suc idx) df \<noteq> []"
  proof
    assume "drop (Suc idx) df = []"
    with Some pos show False by simp
  qed
  then have "Suc idx < length df" by simp
  from built_timeline_inner[OF assms(1) this]
  obtain n :: int where n: "length_col (df ! idx) = of_int n" by blast
  have "of_int ((py_int (length_col (df ! idx)) - 1) * fps)
             = (length_col (df ! idx) - 1) * of_int fps"
    unfolding n py_int_of_int by simp
  then show ?thesis
    unfolding label_event_overflow[OF assms(2,3)] overflow_walk_spec Some by simp
qed

theorem overflow_splitting_witness:
  "add_video_end_info utc boundary_files boundary_counts 2 = Inr boundary_timeline
   \<and> starting_video_index (ts \<lparr>event_type = ''logPos'', ts = 5, end_ts = 36\<rparr>) boundary_timeline = Inr 0
   \<and> end_ts \<lparr>event_type = ''logPos'', ts = 5, end_ts = 36\<rparr> > end_epoch_ts (boundary_timeline ! 0)
   \<and> label_event boundary_timeline 2 \<lparr>event_type = ''logPos'', ts = 5, end_ts = 36\<rparr> [] =
       Inr [\<lparr>lbl_filename = ''b.h264'', lbl_class = ''logPos'', start_frame = 4, end_frame = 15\<rparr>,
            \<lparr>lbl_filename = ''c.h264'', lbl_class = ''logPos'', start_frame = 4, end_frame = 22\<rparr>,
            \<lparr>lbl_filename = ''a.h264'', lbl_class = ''logPos'', start_frame = 10, end_frame = 18\<rparr>]"
proof -
  let ?ev = "\<lparr>event_type = ''logPos'', ts = 5, end_ts = 36\<rparr>"
  have a: "add_video_end_info utc boundary_files boundary_counts 2 = Inr boundary_timeline"
    by (rule boundary_timeline_built)
  have b: "starting_video_index (ts ?ev) boundary_timeline = Inr 0" by code_simp
  have c: "end_ts ?ev > end_epoch_ts (boundary_timeline ! 0)" by code_simp
  have d: "spec_overflow_rows (drop (Suc 0) boundary_timeline) (event_type ?ev) 2
             (of_int (end_ts ?ev - end_epoch_ts (boundary_timeline ! 0))) =
           Some [\<lparr>lbl_filename = ''b.h264'', lbl_class = ''logPos'', start_frame = 4, end_frame = 15\<rparr>,
                 \<lparr>lbl_filename = ''c.h264'', lbl_class = ''logPos'', start_frame = 4, end_frame = 22\<rparr>]"
    by code_simp
  have e: "filename (boundary_timeline ! 0) = ''a.h264''" "epoch_ts (boundary_timeline ! 0) = 0"
    "length_col (boundary_timeline ! 0) = 10" by code_simp+
  from overflow_splitting[OF a b c, of "[]"] a b c
  show ?thesis unfolding d e by simp
qed

text \<open>
  C3. An event whose end is not after the end of its owning video adds exactly one row
  to the collected list: the row of the owning video, from frame
  \<open>floor ((start - video start) * fps)\<close> to frame \<open>floor ((end - video start) * fps)\<close>.
  When moreover the event has zero duration the row's start and end frame are equal, and
  there is no overflow row. (By \<open>event_start_within_owning_video\<close> a zero-duration
  event does end within its owning video whenever that video is not the last one of an
  ordered timeline.)
\<close>

theorem contained_event_single_row:
  assumes "starting_video_index (ts row) df = Inr idx"
    and "end_ts row \<le> end_epoch_ts (df ! idx)"
  shows "\<exists>r. label_event df fps row acc = Inr (acc @ [r])
           \<and> lbl_filename r = filename (df ! idx) \<and> lbl_class r = event_type row
           \<and> start_frame r = of_int \<lfloor>of_int (ts row - epoch_ts (df ! idx)) * (of_int fps :: rat)\<rfloor>
           \<and> end_frame r = of_int \<lfloor>of_int (end_ts row - epoch_ts (df ! idx)) * (of_int fps :: rat)\<rfloor>
           \<and> (ts row = end_ts row \<longrightarrow> start_frame r = end_frame r)"
proof -
  have fl: "of_int \<lfloor>of_int a * (of_int fps :: rat)\<rfloor> = (of_int (a * fps) :: rat)" for a
    by (metis floor_of_int of_int_mult)
  from assms(2) have "\<not> end_ts row > end_epoch_ts (df ! idx)" by simp
  from label_event_contained[OF assms(1) this, of fps acc] show ?thesis
    by (simp add: fl)
qed

theorem contained_event_single_row_witness:
  "starting_video_index (ts \<lparr>event_type = ''logNo'', ts = 5, end_ts = 5\<rparr>) boundary_timeline = Inr 0
   \<and> end_ts \<lparr>event_type = ''logNo'', ts = 5, end_ts = 5\<rparr> \<le> end_epoch_ts (boundary_timeline ! 0)
   \<and> ts \<lparr>event_type = ''logNo'', ts = 5, end_ts = 5\<rparr> = end_ts \<lparr>event_type = ''logNo'', ts = 5, end_ts = 5\<rparr>
   \<and> (\<exists>r. label_event boundary_timeline 2 \<lparr>event_type = ''logNo'', ts = 5, end_ts = 5\<rparr> [] = Inr [r]
         \<and> lbl_filename r = ''a.h264'' \<and> start_frame r = 10 \<and> end_frame r = 10)"
proof -
  let ?ev = "\<lparr>event_type = ''logNo'', ts = 5, end_ts = 5\<rparr>"
  have a: "starting_video_index (ts ?ev) boundary_timeline = Inr 0" by code_simp
  have b: "end_ts ?ev \<le> end_epoch_ts (boundary_timeline ! 0)" by code_simp
  have e: "epoch_ts (boundary_timeline ! 0) = 0" "filename (boundary_timeline ! 0) = ''a.h264''"
    by code_simp+
  from contained_event_single_row[OF a b, of 2 "[]"]
  show ?thesis using a b by (auto simp add: e)
qed

text \<open>
  C4 does not hold as stated for the last row. With 31 frames in the last file and 2
  frames per second (in the zone \<open>utc\<close>), line 129 stores the quotient 31 / 2 in
  \<^verbatim>\<open>length\<close>, not its floor 15, while line 134 adds \<^verbatim>\<open>int(31 / 2)\<close> = 15 seconds to
  the start: the end, 40, is not the start plus the stored length.
\<close>

theorem last_duration_counterexample:
  "length_col (last (projr (add_video_end_info utc boundary_files
      [\<lparr>cnt_filename = ''c.h264'', cnt_datetime = 25, frames = 31\<rparr>] 2))) \<noteq> of_int \<lfloor>(31::rat) / 2\<rfloor>
   \<and> of_int (end_epoch_ts (last (projr (add_video_end_info utc boundary_files
      [\<lparr>cnt_filename = ''c.h264'', cnt_datetime = 25, frames = 31\<rparr>] 2))))
     \<noteq> of_int (epoch_ts (last (projr (add_video_end_info utc boundary_files
      [\<lparr>cnt_filename = ''c.h264'', cnt_datetime = 25, frames = 31\<rparr>] 2))))
       + length_col (last (projr (add_video_end_info utc boundary_files
      [\<lparr>cnt_filename = ''c.h264'', cnt_datetime = 25, frames = 31\<rparr>] 2)))"
proof -
  have "add_video_end_info utc boundary_files
      [\<lparr>cnt_filename = ''c.h264'', cnt_datetime = 25, frames = 31\<rparr>] 2 =
     Inr [\<lparr>filename = ''a.h264'', epoch_ts = 0, length_col = 10, end_epoch_ts = 10\<rparr>,
          \<lparr>filename = ''b.h264'', epoch_ts = 10, length_col = 15, end_epoch_ts = 25\<rparr>,
          \<lparr>filename = ''c.h264'', epoch_ts = 25, length_col = 31 / 2, end_epoch_ts = 40\<rparr>]"
    by code_simp
  moreover have "\<lfloor>(31::rat) / 2\<rfloor> = 15"
    using floor_divide_of_int_eq[of 31 2, where ?'a = rat] by simp
  ultimately show ?thesis by simp
qed

text \<open>
  C4, as the code computes it, in any local time zone \<open>tz\<close>. The built timeline keeps the
  rows, file names and start times of the frame it is built from. Every row but the last
  has as length the next row's start minus its own, and its end is its start plus its
  length. The last row's length is the float quotient of the frame count by the frame
  rate, not its floor. Its end is the timestamp of the naive date and time in the name of
  the last row of the frame count table, advanced by that quotient truncated to whole
  seconds. For a count from 0 and a positive rate, both below \<open>2 ^ 53\<close>, these seconds
  are the floor of the exact quotient; when the rate divides the count the last row's
  length is that floor too, and when moreover the counted row names the last video and the
  zone has no clock change between the video's start and end, the last row's end is its
  start plus its length.
\<close>

theorem built_timeline:
  assumes "add_video_end_info tz fm counts fps = Inr df"
  shows "length df = length fm \<and> map filename df = map filename fm
         \<and> map epoch_ts df = map epoch_ts fm
         \<and> (\<forall>i. Suc i < length df \<longrightarrow>
               length_col (df ! i) = of_int (epoch_ts (df ! Suc i) - epoch_ts (df ! i))
               \<and> of_int (end_epoch_ts (df ! i)) = of_int (epoch_ts (df ! i)) + length_col (df ! i))
         \<and> length_col (last df) = true_divide (frames (last counts)) fps
         \<and> end_epoch_ts (last df)
             = tz (cnt_datetime (last counts) + py_int (true_divide (frames (last counts)) fps))
         \<and> (0 \<le> frames (last counts) \<and> frames (last counts) < 2 ^ 53 \<and> 0 < fps \<and> fps < 2 ^ 53
              \<longrightarrow>
               end_epoch_ts (last df)
                 = tz (cnt_datetime (last counts) + frames (last counts) div fps)
               \<and> (fps dvd frames (last counts) \<longrightarrow>
                     length_col (last df) = of_int (frames (last counts) div fps))
               \<and> (fps dvd frames (last counts)
                    \<and> tz (cnt_datetime (last counts)) = epoch_ts (last fm)
                    \<and> tz (cnt_datetime (last counts) + frames (last counts) div fps)
                        = tz (cnt_datetime (last counts)) + frames (last counts) div fps
                   \<longrightarrow> of_int (end_epoch_ts (last df))
                         = of_int (epoch_ts (last df)) + length_col (last df)))"
proof -
  let ?q = "true_divide (frames (last counts)) fps"
  let ?e = "tz (cnt_datetime (last counts) + py_int ?q)"
  from add_video_end_info_Inr[OF assms] have ne: "fm \<noteq> []" and fps: "fps \<noteq> 0"
    and df: "df = shift_fill_video fm ?q ?e" by simp_all
  have len: "length df = length fm" by (simp add: df length_shift_fill_video)
  have fn: "map filename df = map filename fm" by (simp add: df shift_fill_video_filenames)
  have ep: "map epoch_ts df = map epoch_ts fm" by (simp add: df shift_fill_video_epochs)
  have inner: "length_col (df ! i) = of_int (epoch_ts (df ! Suc i) - epoch_ts (df ! i))
               \<and> of_int (end_epoch_ts (df ! i)) = of_int (epoch_ts (df ! i)) + length_col (df ! i)"
    if "Suc i < length df" for i
    using built_timeline_inner[OF assms that] by simp
  have lastl: "length_col (last df) = ?q" and laste: "end_epoch_ts (last df) = ?e"
    using shift_fill_video_last[OF ne, of ?q ?e] by (simp_all add: df)
  have dfne: "df \<noteq> []" using len ne by auto
  have eplast: "epoch_ts (last df) = epoch_ts (last fm)"
    using ep dfne ne by (metis last_map)
  have bounded: "end_epoch_ts (last df)
                 = tz (cnt_datetime (last counts) + frames (last counts) div fps)
               \<and> (fps dvd frames (last counts) \<longrightarrow>
                     length_col (last df) = of_int (frames (last counts) div fps))
               \<and> (fps dvd frames (last counts)
                    \<and> tz (cnt_datetime (last counts)) = epoch_ts (last fm)
                    \<and> tz (cnt_datetime (last counts) + frames (last counts) div fps)
                        = tz (cnt_datetime (last counts)) + frames (last counts) div fps
                   \<longrightarrow> of_int (end_epoch_ts (last df))
                         = of_int (epoch_ts (last df)) + length_col (last df))"
    if b: "0 \<le> frames (last counts)" "frames (last counts) < 2 ^ 53" "0 < fps" "fps < 2 ^ 53"
  proof -
    have trunc: "py_int ?q = frames (last counts) div fps"
      by (rule py_int_true_divide[OF b])
    have e: "end_epoch_ts (last df) = tz (cnt_datetime (last counts) + frames (last counts) div fps)"
      by (simp add: laste trunc)
    have exact: "length_col (last df) = of_int (frames (last counts) div fps)"
      if d: "fps dvd frames (last counts)"
    proof -
      have "fps \<noteq> 0" "\<bar>frames (last counts)\<bar> < 2 ^ 53" "\<bar>fps\<bar> < 2 ^ 53" using b by simp_all
      from true_divide_exact[OF d this] show ?thesis by (simp add: lastl)
    qed
    have "of_int (end_epoch_ts (last df)) = of_int (epoch_ts (last df)) + length_col (last df)"
      if "fps dvd frames (last counts)" "tz (cnt_datetime (last counts)) = epoch_ts (last fm)"
        "tz (cnt_datetime (last counts) + frames (last counts) div fps)
           = tz (cnt_datetime (last counts)) + frames (last counts) div fps"
      using that exact e eplast by simp
    with e exact show ?thesis by blast
  qed
  from len fn ep inner lastl laste bounded show ?thesis by blast
qed

theorem built_timeline_witness:
  "add_video_end_info utc boundary_files boundary_counts 2 = Inr boundary_timeline
   \<and> length boundary_timeline = length boundary_files
   \<and> length_col (boundary_timeline ! 0)
       = of_int (epoch_ts (boundary_timeline ! Suc 0) - epoch_ts (boundary_timeline ! 0))
   \<and> end_epoch_ts (last boundary_timeline)
       = utc (cnt_datetime (last boundary_counts) + frames (last boundary_counts) div 2)
   \<and> length_col (last boundary_timeline) = of_int (frames (last boundary_counts) div 2)
   \<and> of_int (end_epoch_ts (last boundary_timeline))
       = of_int (epoch_ts (last boundary_timeline)) + length_col (last boundary_timeline)"
proof -
  have a: "add_video_end_info utc boundary_files boundary_counts 2 = Inr boundary_timeline"
    by (rule boundary_timeline_built)
  have b: "Suc 0 < length boundary_timeline" by (simp add: boundary_timeline_def)
  have c: "0 \<le> frames (last boundary_counts) \<and> frames (last boundary_counts) < 2 ^ 53
           \<and> (0::int) < 2 \<and> (2::int) < 2 ^ 53"
    by (simp add: boundary_counts_def)
  have d: "2 dvd frames (last boundary_counts)"
    by (simp add: boundary_counts_def)
  have e: "utc (cnt_datetime (last boundary_counts)) = epoch_ts (last boundary_files)
           \<and> utc (cnt_datetime (last boundary_counts) + frames (last boundary_counts) div 2)
               = utc (cnt_datetime (last boundary_counts)) + frames (last boundary_counts) div 2"
    by (simp add: boundary_counts_def boundary_files_def utc_def)
  from built_timeline[OF a] b c d e a show ?thesis by blast
qed

text \<open>
  C5 does not hold for every row. In the boundary timeline at 2 frames per second an event
  from 10 to 12 starts exactly where the second video starts, so it is owned by the first
  video (strict comparison) and overflows it; its row in the first video starts at frame
  (10 - 0) * 2 = 20 and, by the pullback of line 174, ends at frame (10 - 1) * 2 = 18.
\<close>

theorem monotonic_frames_counterexample:
  "label_event boundary_timeline 2 \<lparr>event_type = ''logPos'', ts = 10, end_ts = 12\<rparr> [] =
       Inr [\<lparr>lbl_filename = ''b.h264'', lbl_class = ''logPos'', start_frame = 4, end_frame = 4\<rparr>,
            \<lparr>lbl_filename = ''a.h264'', lbl_class = ''logPos'', start_frame = 20, end_frame = 18\<rparr>]
   \<and> filename (boundary_timeline ! 0) = ''a.h264''
   \<and> \<not> frames_in_segment (boundary_timeline ! 0) 2
        \<lparr>lbl_filename = ''a.h264'', lbl_class = ''logPos'', start_frame = 20, end_frame = 18\<rparr>"
  by code_simp

text \<open>
  C5, as far as the code keeps it, for a positive frame rate and an event that does not end
  before it starts.
  \<^item> The single row of an event that ends within its owning video satisfies the frame
    condition for that video (whose end is at most its start plus its length).
  \<^item> The row of the owning video of an overflowing event, which is collected last, starts
    at a frame \<open>\<ge> 0\<close> and ends at a frame \<open>\<le> length * fps\<close>; its start frame is at
    most its end frame exactly when the event starts at least one second before the
    video's truncated length has passed.
  \<^item> The overflow row of a video in which the event ends (the leftover that reaches the
    video is below the video's length) satisfies the frame condition for that video.
  Nothing is said about the overflow rows of the videos the event passes through.
\<close>

theorem monotonic_frames:
  assumes "0 < fps"
    and "starting_video_index (ts row) df = Inr idx"
    and "ts row \<le> end_ts row"
  shows "(end_ts row \<le> end_epoch_ts (df ! idx)
            \<and> of_int (end_epoch_ts (df ! idx)) \<le> of_int (epoch_ts (df ! idx)) + length_col (df ! idx)
          \<longrightarrow> (\<exists>r. label_event df fps row acc = Inr (acc @ [r])
                   \<and> lbl_filename r = filename (df ! idx) \<and> frames_in_segment (df ! idx) fps r))
       \<and> (\<forall>rows p k. end_ts row > end_epoch_ts (df ! idx)
              \<and> label_event df fps row acc = Inr (acc @ rows @ [p])
            \<longrightarrow> lbl_filename p = filename (df ! idx)
                \<and> 0 \<le> start_frame p \<and> end_frame p \<le> length_col (df ! idx) * of_int fps
                \<and> (start_frame p \<le> end_frame p
                     \<longleftrightarrow> ts row - epoch_ts (df ! idx) \<le> py_int (length_col (df ! idx)) - 1)
                \<and> (k < length rows
                     \<and> of_int (end_ts row - end_epoch_ts (df ! idx))
                          - sum_list (map length_col (take k (drop (Suc idx) df)))
                        < length_col (df ! (Suc idx + k))
                    \<longrightarrow> Suc idx + k < length df
                        \<and> lbl_filename (rows ! k) = filename (df ! (Suc idx + k))
                        \<and> frames_in_segment (df ! (Suc idx + k)) fps (rows ! k)))"
proof -
  let ?seg = "df ! idx"
  from starting_video_index_Inr[OF assms(2)] have before: "epoch_ts ?seg < ts row" by simp
  have fps0: "(0::rat) \<le> of_int fps" and fps1: "(0::rat) < of_int fps" using assms(1) by simp_all
  have start0: "(0::rat) \<le> of_int ((ts row - epoch_ts ?seg) * fps)"
    using before assms(1) by simp
  have contained: "\<exists>r. label_event df fps row acc = Inr (acc @ [r])
                   \<and> lbl_filename r = filename ?seg \<and> frames_in_segment ?seg fps r"
    if c: "end_ts row \<le> end_epoch_ts ?seg"
      and e: "of_int (end_epoch_ts ?seg) \<le> of_int (epoch_ts ?seg) + length_col ?seg"
  proof -
    from c have nc: "\<not> end_ts row > end_epoch_ts ?seg" by simp
    have "(of_int (end_ts row) :: rat) \<le> of_int (end_epoch_ts ?seg)" using c by simp
    with e have "(of_int (end_ts row - epoch_ts ?seg) :: rat) \<le> length_col ?seg" by simp
    then have "(of_int (end_ts row - epoch_ts ?seg) :: rat) * of_int fps
               \<le> length_col ?seg * of_int fps"
      using fps0 by (rule mult_right_mono)
    moreover have "(ts row - epoch_ts ?seg) * fps \<le> (end_ts row - epoch_ts ?seg) * fps"
      using assms(1,3) by (simp add: mult_right_mono)
    then have "(of_int ((ts row - epoch_ts ?seg) * fps) :: rat)
               \<le> of_int ((end_ts row - epoch_ts ?seg) * fps)"
      by (simp only: of_int_le_iff)
    ultimately show ?thesis
      unfolding label_event_contained[OF assms(2) nc] frames_in_segment_def
      using start0 by simp
  qed
  have overflow: "lbl_filename p = filename ?seg
                \<and> 0 \<le> start_frame p \<and> end_frame p \<le> length_col ?seg * of_int fps
                \<and> (start_frame p \<le> end_frame p
                     \<longleftrightarrow> ts row - epoch_ts ?seg \<le> py_int (length_col ?seg) - 1)
                \<and> (k < length rows
                     \<and> of_int (end_ts row - end_epoch_ts ?seg)
                          - sum_list (map length_col (take k (drop (Suc idx) df)))
                        < length_col (df ! (Suc idx + k))
                    \<longrightarrow> Suc idx + k < length df
                        \<and> lbl_filename (rows ! k) = filename (df ! (Suc idx + k))
                        \<and> frames_in_segment (df ! (Suc idx + k)) fps (rows ! k))"
    if o: "end_ts row > end_epoch_ts ?seg"
      and l: "label_event df fps row acc = Inr (acc @ rows @ [p])" for rows p k
  proof -
    let ?L = "of_int (end_ts row - end_epoch_ts ?seg) :: rat"
    let ?segs = "drop (Suc idx) df"
    from l obtain rows' where
      w: "spec_overflow_rows ?segs (event_type row) fps ?L = Some rows'"
      and eq: "acc @ rows @ [p] = acc @ rows'
                 @ [\<lparr>lbl_filename = filename ?seg, lbl_class = event_type row,
                      start_frame = of_int ((ts row - epoch_ts ?seg) * fps),
                      end_frame = of_int ((py_int (length_col ?seg) - 1) * fps)\<rparr>]"
      unfolding label_event_overflow[OF assms(2) o] overflow_walk_spec
      by (auto split: option.splits)
    from eq have rows: "rows = rows'"
      and p: "p = \<lparr>lbl_filename = filename ?seg, lbl_class = event_type row,
                      start_frame = of_int ((ts row - epoch_ts ?seg) * fps),
                      end_frame = of_int ((py_int (length_col ?seg) - 1) * fps)\<rparr>"
      by simp_all
    have trunc: "of_int (py_int (length_col ?seg) - 1) \<le> length_col ?seg"
      unfolding py_int_def by (simp; linarith)
    have "of_int (py_int (length_col ?seg) - 1) * of_int fps \<le> length_col ?seg * of_int fps"
      using trunc fps0 by (rule mult_right_mono)
    then have pend: "end_frame p \<le> length_col ?seg * of_int fps" by (simp add: p)
    have pord: "start_frame p \<le> end_frame p
                \<longleftrightarrow> ts row - epoch_ts ?seg \<le> py_int (length_col ?seg) - 1"
      using assms(1) by (simp add: p del: of_int_mult of_int_diff)
    have terminal: "Suc idx + k < length df
                    \<and> lbl_filename (rows ! k) = filename (df ! (Suc idx + k))
                    \<and> frames_in_segment (df ! (Suc idx + k)) fps (rows ! k)"
      if k: "k < length rows"
        and t: "?L - sum_list (map length_col (take k ?segs)) < length_col (df ! (Suc idx + k))"
    proof -
      let ?Lk = "?L - sum_list (map length_col (take k ?segs))"
      from spec_overflow_rows_nth[OF w k[unfolded rows], of ] have
        ks: "k < length ?segs" and pos: "0 < ?Lk"
        and row: "rows ! k =
          \<lparr>lbl_filename = filename (?segs ! k), lbl_class = event_type row,
           start_frame = min 4 (?Lk * of_int fps),
           end_frame = (if ?Lk < length_col (?segs ! k) then ?Lk * of_int fps
                        else length_col (?segs ! k))\<rparr>"
        unfolding rows by blast+
      from ks have kd: "Suc idx + k < length df" by simp
      then have nth: "?segs ! k = df ! (Suc idx + k)" by simp
      have a: "0 \<le> ?Lk * of_int fps" using pos fps0 by simp
      have b: "?Lk * of_int fps \<le> length_col (df ! (Suc idx + k)) * of_int fps"
        using t fps0 by (intro mult_right_mono) simp_all
      have "frames_in_segment (df ! (Suc idx + k)) fps (rows ! k)"
        unfolding row nth frames_in_segment_def using t a b by simp
      with kd row nth show ?thesis by simp
    qed
    from p start0 pend pord terminal show ?thesis by simp
  qed
  from contained overflow show ?thesis by blast
qed

theorem monotonic_frames_witness:
  "(\<exists>r. label_event boundary_timeline 2 \<lparr>event_type = ''logNo'', ts = 5, end_ts = 8\<rparr> [] = Inr [r]
        \<and> frames_in_segment (boundary_timeline ! 0) 2 r)
   \<and> label_event boundary_timeline 2 \<lparr>event_type = ''logPos'', ts = 5, end_ts = 12\<rparr> [] =
       Inr [\<lparr>lbl_filename = ''b.h264'', lbl_class = ''logPos'', start_frame = 4, end_frame = 4\<rparr>,
            \<lparr>lbl_filename = ''a.h264'', lbl_class = ''logPos'', start_frame = 10, end_frame = 18\<rparr>]
   \<and> frames_in_segment (boundary_timeline ! 1) 2
        \<lparr>lbl_filename = ''b.h264'', lbl_class = ''logPos'', start_frame = 4, end_frame = 4\<rparr>
   \<and> end_frame \<lparr>lbl_filename = ''a.h264'', lbl_class = ''logPos'', start_frame = 10, end_frame = 18\<rparr>
        \<le> length_col (boundary_timeline ! 0) * of_int 2"
proof -
  let ?c = "\<lparr>event_type = ''logNo'', ts = 5, end_ts = 8\<rparr>"
  let ?o = "\<lparr>event_type = ''logPos'', ts = 5, end_ts = 12\<rparr>"
  let ?b = "\<lparr>lbl_filename = ''b.h264'', lbl_class = ''logPos'', start_frame = 4, end_frame = 4\<rparr>"
  let ?a = "\<lparr>lbl_filename = ''a.h264'', lbl_class = ''logPos'', start_frame = 10, end_frame = 18\<rparr>"
  have fps: "(0::int) < 2" by simp
  have c1: "starting_video_index (ts ?c) boundary_timeline = Inr 0" by code_simp
  have c2: "ts ?c \<le> end_ts ?c" by simp
  have c3: "end_ts ?c \<le> end_epoch_ts (boundary_timeline ! 0)
            \<and> (of_int (end_epoch_ts (boundary_timeline ! 0)) :: rat)
                \<le> of_int (epoch_ts (boundary_timeline ! 0)) + length_col (boundary_timeline ! 0)"
    by (simp add: boundary_timeline_def)
  from monotonic_frames[OF fps c1 c2, of "[]"] c3
  have first: "\<exists>r. label_event boundary_timeline 2 ?c [] = Inr [r]
        \<and> frames_in_segment (boundary_timeline ! 0) 2 r"
    by auto
  have o1: "starting_video_index (ts ?o) boundary_timeline = Inr 0" by code_simp
  have o2: "ts ?o \<le> end_ts ?o" by simp
  have o3: "end_ts ?o > end_epoch_ts (boundary_timeline ! 0)" by (simp add: boundary_timeline_def)
  have o4: "label_event boundary_timeline 2 ?o [] = Inr ([] @ [?b] @ [?a])" by code_simp
  have o5: "0 < length [?b]
            \<and> of_int (end_ts ?o - end_epoch_ts (boundary_timeline ! 0))
                 - sum_list (map length_col (take 0 (drop (Suc 0) boundary_timeline)))
               < length_col (boundary_timeline ! (Suc 0 + 0))"
    by (simp add: boundary_timeline_def)
  from monotonic_frames[OF fps o1 o2, of "[]"] o3 o4 o5
  have "end_frame ?a \<le> length_col (boundary_timeline ! 0) * of_int 2
        \<and> frames_in_segment (boundary_timeline ! (Suc 0 + 0)) 2 ([?b] ! 0)"
    by blast
  then have second: "end_frame ?a \<le> length_col (boundary_timeline ! 0) * of_int 2"
    and third: "frames_in_segment (boundary_timeline ! 1) 2 ?b" by simp_all
  from o4 have "label_event boundary_timeline 2 ?o [] = Inr [?b, ?a]" by simp
  with first second third show ?thesis by blast
qed

text \<open>
  C6. The boundary scenario: files starting at 0, 10 and 25, 2 frames per second, 30
  frames in the last file, an event from 5 to 12. The owning video is the one starting
  at 0 and the overflow row of the video starting at 10 runs from frame 4 to frame 4,
  as the specification says. The primary row runs from frame 10 to frame 18, which is
  (10 - 1) * 2 by the pullback of line 174, and not to frame 20: no row of the event has
  the file name of the first video, start frame 10 and end frame 20.
\<close>

theorem boundary_scenario_counterexample:
  "\<lparr>lbl_filename = ''a.h264'', lbl_class = ''logPos'', start_frame = 10, end_frame = 20\<rparr>
     \<notin> set (projr (label_event boundary_timeline 2 \<lparr>event_type = ''logPos'', ts = 5, end_ts = 12\<rparr> []))"
proof -
  have "label_event boundary_timeline 2 \<lparr>event_type = ''logPos'', ts = 5, end_ts = 12\<rparr> [] =
       Inr [\<lparr>lbl_filename = ''b.h264'', lbl_class = ''logPos'', start_frame = 4, end_frame = 4\<rparr>,
            \<lparr>lbl_filename = ''a.h264'', lbl_class = ''logPos'', start_frame = 10, end_frame = 18\<rparr>]"
    by code_simp
  then show ?thesis by simp
qed

text \<open>
  C6, as the code computes it (in the zone \<open>utc\<close>, where the scenario's start times are
  both wall clock and epoch seconds): the timeline and the event ends of the scenario, the owning
  video of the event starting at 5, the two rows of that event, and the whole list the
  run collects for the two events at 5 and 12.
\<close>

theorem boundary_scenario:
  "add_video_end_info utc boundary_files boundary_counts 2 = Inr boundary_timeline
   \<and> add_event_end_info utc [\<lparr>event_type = ''logPos'', ts = 5\<rparr>, \<lparr>event_type = ''logNeg'', ts = 12\<rparr>]
        boundary_counts 2
       = Inr [\<lparr>event_type = ''logPos'', ts = 5, end_ts = 12\<rparr>,
              \<lparr>event_type = ''logNeg'', ts = 12, end_ts = 40\<rparr>]
   \<and> starting_video_index 5 boundary_timeline = Inr 0
   \<and> label_event boundary_timeline 2 \<lparr>event_type = ''logPos'', ts = 5, end_ts = 12\<rparr> [] =
       Inr [\<lparr>lbl_filename = ''b.h264'', lbl_class = ''logPos'', start_frame = 4, end_frame = 4\<rparr>,
            \<lparr>lbl_filename = ''a.h264'', lbl_class = ''logPos'', start_frame = 10, end_frame = 18\<rparr>]
   \<and> run_thru_events utc [\<lparr>event_type = ''logPos'', ts = 5\<rparr>, \<lparr>event_type = ''logNeg'', ts = 12\<rparr>]
        boundary_counts boundary_files 2 =
       Inr [\<lparr>lbl_filename = ''b.h264'', lbl_class = ''logPos'', start_frame = 4, end_frame = 4\<rparr>,
            \<lparr>lbl_filename = ''a.h264'', lbl_class = ''logPos'', start_frame = 10, end_frame = 18\<rparr>,
            \<lparr>lbl_filename = ''c.h264'', lbl_class = ''logNeg'', start_frame = 4, end_frame = 15\<rparr>,
            \<lparr>lbl_filename = ''b.h264'', lbl_class = ''logNeg'', start_frame = 4, end_frame = 28\<rparr>]"
  by code_simp

text \<open>
  C7. An event whose leftover after its owning video exceeds the total length of all the
  videos that follow (their lengths being non-negative, as in a timeline ordered by start
  time) makes the loop body raise: the walk runs past the last row with a positive
  leftover and \<^verbatim>\<open>iloc\<close> raises \<^verbatim>\<open>IndexError\<close>, the failure the specification calls
  SegmentExhausted. The run then returns no list of labels at all, and when the events
  before this one were labelled without an exception the run ends with this very exception.
\<close>

theorem segment_exhausted_fails:
  assumes "add_video_end_info tz fm counts fps = Inr df"
    and "add_event_end_info tz events counts fps = Inr evs"
    and "row \<in> set evs"
    and "starting_video_index (ts row) df = Inr idx"
    and "\<forall>s\<in>set (drop (Suc idx) df). 0 \<le> length_col s"
    and "sum_list (map length_col (drop (Suc idx) df))
           < of_int (end_ts row - end_epoch_ts (df ! idx))"
  shows "label_event df fps row acc = Inl IndexError
         \<and> isl (run_thru_events tz events counts fm fps)
         \<and> (\<forall>pre post out. evs = pre @ row # post \<and> iter_events df fps pre [] = Inr out
               \<longrightarrow> run_thru_events tz events counts fm fps = Inl IndexError)"
proof -
  let ?L = "of_int (end_ts row - end_epoch_ts (df ! idx)) :: rat"
  have "0 \<le> sum_list (map length_col (drop (Suc idx) df))"
    using assms(5) by (intro sum_list_nonneg) auto
  with assms(6) have "0 < ?L" by linarith
  then have over: "end_ts row > end_epoch_ts (df ! idx)" by simp
  have none: "spec_overflow_rows (drop (Suc idx) df) (event_type row) fps ?L = None"
    by (rule spec_overflow_rows_exhausted[OF assms(5,6)])
  have fail: "label_event df fps row acc' = Inl IndexError" for acc'
    unfolding label_event_overflow[OF assms(4) over] overflow_walk_spec none
    by simp
  then have "isl (label_event df fps row [])" by simp
  from run_thru_events_fail[OF assms(1,2,3) this]
  have run: "isl (run_thru_events tz events counts fm fps)" .
  have "run_thru_events tz events counts fm fps = Inl IndexError"
    if "evs = pre @ row # post" "iter_events df fps pre [] = Inr out" for pre post out
    using that by (simp add: run_thru_events_def assms(1,2) iter_events_append fail)
  with fail run show ?thesis by blast
qed

theorem segment_exhausted_fails_witness:
  "add_event_end_info utc
      [\<lparr>event_type = ''logPos'', ts = 5\<rparr>, \<lparr>event_type = ''logNeg'', ts = 12\<rparr>,
       \<lparr>event_type = ''logNo'', ts = 50\<rparr>] boundary_counts 2
     = Inr ([\<lparr>event_type = ''logPos'', ts = 5, end_ts = 12\<rparr>]
            @ \<lparr>event_type = ''logNeg'', ts = 12, end_ts = 50\<rparr>
            # [\<lparr>event_type = ''logNo'', ts = 50, end_ts = 40\<rparr>])
   \<and> starting_video_index (ts \<lparr>event_type = ''logNeg'', ts = 12, end_ts = 50\<rparr>) boundary_timeline = Inr 1
   \<and> iter_events boundary_timeline 2 [\<lparr>event_type = ''logPos'', ts = 5, end_ts = 12\<rparr>] [] =
       Inr [\<lparr>lbl_filename = ''b.h264'', lbl_class = ''logPos'', start_frame = 4, end_frame = 4\<rparr>,
            \<lparr>lbl_filename = ''a.h264'', lbl_class = ''logPos'', start_frame = 10, end_frame = 18\<rparr>]
   \<and> label_event boundary_timeline 2 \<lparr>event_type = ''logNeg'', ts = 12, end_ts = 50\<rparr> [] = Inl IndexError
   \<and> run_thru_events utc
        [\<lparr>event_type = ''logPos'', ts = 5\<rparr>, \<lparr>event_type = ''logNeg'', ts = 12\<rparr>,
         \<lparr>event_type = ''logNo'', ts = 50\<rparr>] boundary_counts boundary_files 2 = Inl IndexError"
proof -
  let ?row = "\<lparr>event_type = ''logNeg'', ts = 12, end_ts = 50\<rparr>"
  let ?pre = "[\<lparr>event_type = ''logPos'', ts = 5, end_ts = 12\<rparr>]"
  let ?post = "[\<lparr>event_type = ''logNo'', ts = 50, end_ts = 40\<rparr>]"
  let ?events = "[\<lparr>event_type = ''logPos'', ts = 5\<rparr>, \<lparr>event_type = ''logNeg'', ts = 12\<rparr>,
       \<lparr>event_type = ''logNo'', ts = 50\<rparr>]"
  let ?out = "[\<lparr>lbl_filename = ''b.h264'', lbl_class = ''logPos'', start_frame = 4, end_frame = 4\<rparr>,
            \<lparr>lbl_filename = ''a.h264'', lbl_class = ''logPos'', start_frame = 10, end_frame = 18\<rparr>]"
  have a: "add_video_end_info utc boundary_files boundary_counts 2 = Inr boundary_timeline"
    by (rule boundary_timeline_built)
  have b: "add_event_end_info utc ?events boundary_counts 2 = Inr (?pre @ ?row # ?post)"
    by code_simp
  have c: "?row \<in> set (?pre @ ?row # ?post)" by simp
  have d: "starting_video_index (ts ?row) boundary_timeline = Inr 1" by code_simp
  have e: "\<forall>s\<in>set (drop (Suc 1) boundary_timeline). 0 \<le> length_col s"
    by (simp add: boundary_timeline_def)
  have f: "sum_list (map length_col (drop (Suc 1) boundary_timeline))
           < of_int (end_ts ?row - end_epoch_ts (boundary_timeline ! 1))"
    by (simp add: boundary_timeline_def)
  have g: "iter_events boundary_timeline 2 ?pre [] = Inr ?out" by code_simp
  from segment_exhausted_fails[OF a b c d e f, of "[]"]
  have "label_event boundary_timeline 2 ?row [] = Inl IndexError"
    and "\<forall>pre post out. ?pre @ ?row # ?post = pre @ ?row # post
            \<and> iter_events boundary_timeline 2 pre [] = Inr out
               \<longrightarrow> run_thru_events utc ?events boundary_counts boundary_files 2 = Inl IndexError"
    by blast+
  moreover from this(2) g have "run_thru_events utc ?events boundary_counts boundary_files 2 = Inl IndexError"
    by blast
  ultimately show ?thesis using b d g by blast
qed

text \<open>
  C8. When no video starts strictly before an event, \<^verbatim>\<open>_find_latest_video\<close> raises
  (\<^verbatim>\<open>np.argmin\<close> of an empty selection, a \<^verbatim>\<open>ValueError\<close>: the failure the
  specification calls UnalignedEvent), so does the loop body on every event with that
  start, and the run over the time-sorted events ends with this exception: the event is
  neither dropped nor attached to the first video, and no list of labels is returned.
\<close>

theorem unaligned_event_fails:
  assumes "add_video_end_info tz fm counts fps = Inr df"
    and "sorted (map ts events)" and "ev \<in> set events"
    and "\<forall>r\<in>set fm. \<not> epoch_ts r < ts ev"
  shows "find_latest_video (ts ev) df = Inl ValueError
         \<and> (\<forall>row acc. ts row = ts ev \<longrightarrow> label_event df fps row acc = Inl ValueError)
         \<and> run_thru_events tz events counts fm fps = Inl ValueError"
proof -
  have ep: "map epoch_ts df = map epoch_ts fm" by (rule add_video_end_info_epochs[OF assms(1)])
  have none: "\<forall>r\<in>set df. \<not> epoch_ts r < t" if "t \<le> ts ev" for t
  proof
    fix r assume "r \<in> set df"
    then have "epoch_ts r \<in> set (map epoch_ts fm)" unfolding ep[symmetric] by simp
    then obtain r' where "r' \<in> set fm" "epoch_ts r' = epoch_ts r" by auto
    with assms(4) that show "\<not> epoch_ts r < t" by force
  qed
  have fail: "label_event df fps row acc = Inl ValueError" if "ts row \<le> ts ev" for row acc
    by (simp add: label_event_def starting_video_index_none[OF none[OF that]])
  from assms(3) have ne: "events \<noteq> []" by auto
  from add_event_end_info_ok[OF ne assms(1)] obtain evs where
    evs: "add_event_end_info tz events counts fps = Inr evs" by blast
  have tsm: "map ts evs = map ts events" by (rule add_event_end_info_ts[OF evs])
  with ne obtain row rows where rr: "evs = row # rows" by (cases evs) auto
  from ne obtain e0 es where ev0: "events = e0 # es" by (cases events) auto
  have "ts row = ts e0" using tsm rr ev0 by simp
  moreover have "ts e0 \<le> ts ev" using assms(2,3) ev0 by auto
  ultimately have "label_event df fps row [] = Inl ValueError" using fail by simp
  then have "run_thru_events tz events counts fm fps = Inl ValueError"
    by (simp add: run_thru_events_def assms(1) evs rr)
  moreover have "find_latest_video (ts ev) df = Inl ValueError"
    by (rule find_latest_video_none[OF none]) simp
  ultimately show ?thesis using fail by simp
qed

theorem unaligned_event_fails_witness:
  "add_video_end_info utc boundary_files boundary_counts 2 = Inr boundary_timeline
   \<and> sorted (map ts [\<lparr>event_type = ''logPos'', ts = 0\<rparr>, \<lparr>event_type = ''logNeg'', ts = 12\<rparr>])
   \<and> find_latest_video 0 boundary_timeline = Inl ValueError
   \<and> label_event boundary_timeline 2 \<lparr>event_type = ''logPos'', ts = 0, end_ts = 12\<rparr> [] = Inl ValueError
   \<and> run_thru_events utc [\<lparr>event_type = ''logPos'', ts = 0\<rparr>, \<lparr>event_type = ''logNeg'', ts = 12\<rparr>]
        boundary_counts boundary_files 2 = Inl ValueError"
proof -
  let ?ev = "\<lparr>event_type = ''logPos'', ts = 0\<rparr>"
  let ?events = "[?ev, \<lparr>event_type = ''logNeg'', ts = 12\<rparr>]"
  have a: "add_video_end_info utc boundary_files boundary_counts 2 = Inr boundary_timeline"
    by (rule boundary_timeline_built)
  have b: "sorted (map ts ?events)" by simp
  have c: "?ev \<in> set ?events" by simp
  have d: "\<forall>r\<in>set boundary_files. \<not> epoch_ts r < ts ?ev" by (simp add: boundary_files_def)
  from unaligned_event_fails[OF a b c d]
  show ?thesis using a b by simp
qed

text \<open>
  C9. For an event that overflows its owning video, the rows of the overflow walk are
  appended to the collected list before the row of the owning video: the list after the
  event is the list before it, then the rows of the walk (at least one), then the primary
  row.
\<close>

theorem overflow_rows_before_primary:
  assumes "starting_video_index (ts row) df = Inr idx"
    and "end_ts row > end_epoch_ts (df ! idx)"
    and "label_event df fps row acc = Inr out"
  shows "\<exists>rows. overflow_walk df (event_type row) fps
                   (of_int (end_ts row - end_epoch_ts (df ! idx))) (Suc idx) [] = Inr rows
               \<and> rows \<noteq> []
               \<and> out = acc @ rows
                    @ [\<lparr>lbl_filename = filename (df ! idx), lbl_class = event_type row,
                         start_frame = of_int ((ts row - epoch_ts (df ! idx)) * fps),
                         end_frame = of_int ((py_int (length_col (df ! idx)) - 1) * fps)\<rparr>]"
proof -
  let ?L = "of_int (end_ts row - end_epoch_ts (df ! idx)) :: rat"
  have pos: "?L > 0" using assms(2) by simp
  obtain rows where w: "overflow_walk df (event_type row) fps ?L (Suc idx) [] = Inr rows"
    and out: "out = acc @ rows
                    @ [\<lparr>lbl_filename = filename (df ! idx), lbl_class = event_type row,
                         start_frame = of_int ((ts row - epoch_ts (df ! idx)) * fps),
                         end_frame = of_int ((py_int (length_col (df ! idx)) - 1) * fps)\<rparr>]"
    using assms(3) unfolding label_event_overflow[OF assms(1,2)]
    by (auto split: sum.splits)
  have "rows \<noteq> []"
  proof
    assume "rows = []"
    with w have "spec_overflow_rows (drop (Suc idx) df) (event_type row) fps ?L = Some []"
      by (simp add: overflow_walk_spec split: option.splits)
    then show False using pos
      by (cases "drop (Suc idx) df") (auto split: if_splits)
  qed
  with w out show ?thesis by blast
qed

theorem overflow_rows_before_primary_witness:
  "starting_video_index (ts \<lparr>event_type = ''logPos'', ts = 5, end_ts = 12\<rparr>) boundary_timeline = Inr 0
   \<and> end_ts \<lparr>event_type = ''logPos'', ts = 5, end_ts = 12\<rparr> > end_epoch_ts (boundary_timeline ! 0)
   \<and> label_event boundary_timeline 2 \<lparr>event_type = ''logPos'', ts = 5, end_ts = 12\<rparr> [] =
       Inr [\<lparr>lbl_filename = ''b.h264'', lbl_class = ''logPos'', start_frame = 4, end_frame = 4\<rparr>,
            \<lparr>lbl_filename = ''a.h264'', lbl_class = ''logPos'', start_frame = 10, end_frame = 18\<rparr>]
   \<and> (\<exists>rows. overflow_walk boundary_timeline ''logPos'' 2 2 1 [] = Inr rows \<and> rows \<noteq> []
        \<and> [\<lparr>lbl_filename = ''b.h264'', lbl_class = ''logPos'', start_frame = 4, end_frame = 4\<rparr>,
            \<lparr>lbl_filename = ''a.h264'', lbl_class = ''logPos'', start_frame = 10, end_frame = 18\<rparr>]
           = rows @ [\<lparr>lbl_filename = ''a.h264'', lbl_class = ''logPos'', start_frame = 10, end_frame = 18\<rparr>])"
proof -
  let ?ev = "\<lparr>event_type = ''logPos'', ts = 5, end_ts = 12\<rparr>"
  have a: "starting_video_index (ts ?ev) boundary_timeline = Inr 0" by code_simp
  have b: "end_ts ?ev > end_epoch_ts (boundary_timeline ! 0)" by code_simp
  have c: "label_event boundary_timeline 2 ?ev [] =
       Inr [\<lparr>lbl_filename = ''b.h264'', lbl_class = ''logPos'', start_frame = 4, end_frame = 4\<rparr>,
            \<lparr>lbl_filename = ''a.h264'', lbl_class = ''logPos'', start_frame = 10, end_frame = 18\<rparr>]"
    by code_simp
  have d: "py_int (length_col (boundary_timeline ! 0)) = 10" by code_simp
  have e: "epoch_ts (boundary_timeline ! 0) = 0" "end_epoch_ts (boundary_timeline ! 0) = 10"
    "filename (boundary_timeline ! 0) = ''a.h264''" by code_simp+
  from overflow_rows_before_primary[OF a b c]
  show ?thesis using a b c by (simp add: d e)
qed

text \<open>
  C10. Every row the overflow walk emits (every row of the loop of lines 177--194, as
  opposed to the row of the owning video) has a start frame of at most 4, whatever the
  leftover seconds and the frame rate are.
\<close>

theorem overflow_start_frame_at_most_4:
  assumes "overflow_walk df cls fps leftover i [] = Inr rows" and "r \<in> set rows"
  shows "start_frame r \<le> 4"
proof -
  have "spec_overflow_rows segs cls fps l = Some rows \<Longrightarrow> r \<in> set rows \<Longrightarrow> start_frame r \<le> 4"
    for segs l
  proof (induction segs arbitrary: l rows)
    case Nil
    then show ?case by (simp split: if_splits)
  next
    case (Cons seg segs)
    then show ?case
      by (auto split: if_splits)
  qed
  moreover from assms(1) have "spec_overflow_rows (drop i df) cls fps leftover = Some rows"
    by (simp add: overflow_walk_spec split: option.splits)
  ultimately show ?thesis using assms(2) by blast
qed

theorem overflow_start_frame_at_most_4_witness:
  "overflow_walk boundary_timeline ''logPos'' 2 2 1 []
     = Inr [\<lparr>lbl_filename = ''b.h264'', lbl_class = ''logPos'', start_frame = 4, end_frame = 4\<rparr>]
   \<and> start_frame \<lparr>lbl_filename = ''b.h264'', lbl_class = ''logPos'', start_frame = 4, end_frame = 4\<rparr> \<le> 4"
proof -
  have h: "overflow_walk boundary_timeline ''logPos'' 2 2 1 []
     = Inr [\<lparr>lbl_filename = ''b.h264'', lbl_class = ''logPos'', start_frame = 4, end_frame = 4\<rparr>]"
    by code_simp
  show ?thesis
    using h overflow_start_frame_at_most_4[OF h, of "\<lparr>lbl_filename = ''b.h264'', lbl_class = ''logPos'', start_frame = 4, end_frame = 4\<rparr>"]
    by simp
qed

end
